theory Spec2Isabelle
  imports Complex_Main "HOL-Library.Word"
begin

section \<open>Data model (engine/types.ts)\<close>

datatype LayerType = Background | Lineart | Color

text \<open>
  A frame: its id, its ordinal and the layer id of each of the three roles. The field
  \<open>id\<close> of the source is named \<open>frame_id\<close> here (\<open>id\<close> is the identity function of HOL).
\<close>

record Frame =
  frame_id :: string
  index :: int
  layers :: "LayerType \<Rightarrow> string"

text \<open>A Blob is the encoded raster: a sequence of bytes, compared by content.\<close>

type_synonym blob = "8 word list"

section \<open>StorageManager (engine/StorageManager.ts)\<close>

text \<open>
  The state of the storage manager together with the database it opens: \<open>db\<close> tells
  whether \<open>this.db\<close> is set (it is \<open>null\<close> until \<open>init\<close> has completed), \<open>layers_store\<close>
  is the object store \<open>layers\<close> (out-of-line keys) and \<open>frames_store\<close> the object store
  \<open>frames\<close> (key path \<open>id\<close>), kept as an association list with one entry per key.
  A thrown \<open>Error('DB not initialized')\<close> is the value \<open>Inl DBNotInitialized\<close> (the
  other error value, \<open>TypeError\<close>, is raised by the brush engine only); every
  operation returns its result with the state after it. Transaction errors of the
  database itself are not modelled.
\<close>

datatype error = DBNotInitialized | TypeError

record StorageManager =
  db :: bool
  layers_store :: "string \<rightharpoonup> blob"
  frames_store :: "(string \<times> Frame) list"

definition init :: "StorageManager \<Rightarrow> StorageManager" where
  "init sm = sm\<lparr>db := True\<rparr>"

definition saveLayer ::
  "string \<Rightarrow> blob \<Rightarrow> StorageManager \<Rightarrow> (error + unit) \<times> StorageManager" where
  "saveLayer lid b sm =
     (if \<not> db sm then (Inl DBNotInitialized, sm)
      else (Inr (), sm\<lparr>layers_store := (layers_store sm)(lid \<mapsto> b)\<rparr>))"

definition getLayer ::
  "string \<Rightarrow> StorageManager \<Rightarrow> (error + blob option) \<times> StorageManager" where
  "getLayer lid sm =
     (if \<not> db sm then (Inl DBNotInitialized, sm)
      else (Inr (layers_store sm lid), sm))"

definition deleteLayer ::
  "string \<Rightarrow> StorageManager \<Rightarrow> (error + unit) \<times> StorageManager" where
  "deleteLayer lid sm =
     (if \<not> db sm then (Inl DBNotInitialized, sm)
      else if lid = [] then (Inr (), sm)
      else (Inr (), sm\<lparr>layers_store := (layers_store sm)(lid := None)\<rparr>))"

definition copyLayer ::
  "string \<Rightarrow> string \<Rightarrow> StorageManager \<Rightarrow> (error + unit) \<times> StorageManager" where
  "copyLayer sourceId destId sm =
     (case getLayer sourceId sm of
        (Inl e, sm') \<Rightarrow> (Inl e, sm')
      | (Inr None, sm') \<Rightarrow> (Inr (), sm')
      | (Inr (Some b), sm') \<Rightarrow> saveLayer destId b sm')"

text \<open>\<open>store.put(frame)\<close>: the record replaces the one stored under its id, if any.\<close>

fun put_frame :: "Frame \<Rightarrow> (string \<times> Frame) list \<Rightarrow> (string \<times> Frame) list" where
  "put_frame f [] = [(frame_id f, f)]"
| "put_frame f ((k, g) # rest) =
     (if k = frame_id f then (k, f) # rest else (k, g) # put_frame f rest)"

definition saveFrame ::
  "Frame \<Rightarrow> StorageManager \<Rightarrow> (error + unit) \<times> StorageManager" where
  "saveFrame frame sm =
     (if \<not> db sm then (Inl DBNotInitialized, sm)
      else (Inr (), sm\<lparr>frames_store := put_frame frame (frames_store sm)\<rparr>))"

text \<open>
  \<open>store.getAll()\<close> returns every stored record. The database returns them in key order;
  the caller sorts them by index, and the model returns them in the order of the
  association list.
\<close>

definition getAllFrames ::
  "StorageManager \<Rightarrow> (error + Frame list) \<times> StorageManager" where
  "getAllFrames sm =
     (if \<not> db sm then (Inl DBNotInitialized, sm)
      else (Inr (map snd (frames_store sm)), sm))"

section \<open>Frame operations and history (App.tsx)\<close>

text \<open>
  The part of the component state the frame and history handlers read and write. Each
  handler is modelled as run to completion (every \<open>await\<close> resolved before the next
  handler starts) and returns \<open>Some e\<close> when it was left by the exception \<open>e\<close>, with the
  state as it is at that moment: a state setter called before the exception has taken
  effect. The effects of the component that clear the undo and redo stacks when the
  current frame, the frame list or the active layer changes are not handlers and are not
  modelled.
\<close>

record App =
  frames :: "Frame list"
  currentFrameIndex :: int
  activeLayer :: LayerType
  isPlaying :: bool
  undoStack :: "blob option list"
  redoStack :: "blob option list"
  storageManager :: StorageManager

text \<open>\<open>frames[i]\<close>: \<open>undefined\<close> outside the list.\<close>

definition frame_at :: "Frame list \<Rightarrow> int \<Rightarrow> Frame option" where
  "frame_at fs i = (if 0 \<le> i \<and> i < int (length fs) then Some (fs ! nat i) else None)"

text \<open>
  \<open>createNewFrame\<close> draws four identifiers from \<open>crypto.randomUUID()\<close>; they are an
  argument here: the frame id and the ids of the background, lineart and color layers.
\<close>

type_synonym uuids = "string \<times> string \<times> string \<times> string"

definition createNewFrame :: "uuids \<Rightarrow> int \<Rightarrow> Frame" where
  "createNewFrame u i =
     (case u of (fid, bg, la, co) \<Rightarrow>
        \<lparr>frame_id = fid, index = i,
         layers = (\<lambda>t. case t of Background \<Rightarrow> bg | Lineart \<Rightarrow> la | Color \<Rightarrow> co)\<rparr>)"

text \<open>\<open>fs.map((f, i) => ({ ...f, index: i }))\<close>\<close>

definition reindex :: "Frame list \<Rightarrow> Frame list" where
  "reindex fs = map (\<lambda>(f, i). f\<lparr>index := int i\<rparr>) (zip fs [0..<length fs])"

definition addFrame :: "uuids \<Rightarrow> App \<Rightarrow> error option \<times> App" where
  "addFrame u app =
     (let newFrame = createNewFrame u (int (length (frames app)));
          newFrames = frames app @ [newFrame];
          app1 = app\<lparr>frames := newFrames\<rparr>
      in case saveFrame newFrame (storageManager app1) of
           (Inl e, sm) \<Rightarrow> (Some e, app1\<lparr>storageManager := sm\<rparr>)
         | (Inr _, sm) \<Rightarrow>
             (None, app1\<lparr>storageManager := sm,
                         currentFrameIndex := int (length newFrames) - 1\<rparr>))"

definition duplicateFrame :: "int \<Rightarrow> uuids \<Rightarrow> App \<Rightarrow> error option \<times> App" where
  "duplicateFrame i u app =
     (case frame_at (frames app) i of
        None \<Rightarrow> (None, app)
      | Some sourceFrame \<Rightarrow>
          (let newFrame = createNewFrame u (i + 1) in
           case copyLayer (layers sourceFrame Background) (layers newFrame Background)
                  (storageManager app) of
             (Inl e, sm1) \<Rightarrow> (Some e, app\<lparr>storageManager := sm1\<rparr>)
           | (Inr _, sm1) \<Rightarrow>
          (case copyLayer (layers sourceFrame Lineart) (layers newFrame Lineart) sm1 of
             (Inl e, sm2) \<Rightarrow> (Some e, app\<lparr>storageManager := sm2\<rparr>)
           | (Inr _, sm2) \<Rightarrow>
          (case copyLayer (layers sourceFrame Color) (layers newFrame Color) sm2 of
             (Inl e, sm3) \<Rightarrow> (Some e, app\<lparr>storageManager := sm3\<rparr>)
           | (Inr _, sm3) \<Rightarrow>
          (let newFrames = take (nat (i + 1)) (frames app) @ [newFrame]
                             @ drop (nat (i + 1)) (frames app);
               app1 = app\<lparr>frames := reindex newFrames, storageManager := sm3\<rparr>
           in case saveFrame newFrame sm3 of
                (Inl e, sm4) \<Rightarrow> (Some e, app1\<lparr>storageManager := sm4\<rparr>)
              | (Inr _, sm4) \<Rightarrow>
                  (None, app1\<lparr>storageManager := sm4, currentFrameIndex := i + 1\<rparr>))))))"

definition deleteFrame :: "int \<Rightarrow> App \<Rightarrow> error option \<times> App" where
  "deleteFrame i app =
     (if length (frames app) \<le> 1 then (None, app)
      else case frame_at (frames app) i of
        None \<Rightarrow> (None, app)
      | Some frameToDelete \<Rightarrow>
          (let newFrames = reindex (take (nat i) (frames app) @ drop (nat i + 1) (frames app));
               app1 = app\<lparr>frames := newFrames\<rparr>
           in case deleteLayer (layers frameToDelete Background) (storageManager app1) of
             (Inl e, sm1) \<Rightarrow> (Some e, app1\<lparr>storageManager := sm1\<rparr>)
           | (Inr _, sm1) \<Rightarrow>
          (case deleteLayer (layers frameToDelete Lineart) sm1 of
             (Inl e, sm2) \<Rightarrow> (Some e, app1\<lparr>storageManager := sm2\<rparr>)
           | (Inr _, sm2) \<Rightarrow>
          (case deleteLayer (layers frameToDelete Color) sm2 of
             (Inl e, sm3) \<Rightarrow> (Some e, app1\<lparr>storageManager := sm3\<rparr>)
           | (Inr _, sm3) \<Rightarrow>
          (let app2 = app1\<lparr>storageManager := sm3\<rparr>
           in if currentFrameIndex app2 \<ge> int (length newFrames)
              then (None, app2\<lparr>currentFrameIndex := max 0 (int (length newFrames) - 1)\<rparr>)
              else (None, app2))))))"

text \<open>A sequence of frame operations; the application goes on after a failed one.\<close>

datatype frame_op = AddFrame uuids | DuplicateFrame int uuids | DeleteFrame int

fun apply_frame_op :: "frame_op \<Rightarrow> App \<Rightarrow> App" where
  "apply_frame_op (AddFrame u) app = snd (addFrame u app)"
| "apply_frame_op (DuplicateFrame i u) app = snd (duplicateFrame i u app)"
| "apply_frame_op (DeleteFrame i) app = snd (deleteFrame i app)"

definition apply_frame_ops :: "frame_op list \<Rightarrow> App \<Rightarrow> App" where
  "apply_frame_ops ops app = foldl (\<lambda>a p. apply_frame_op p a) app ops"

text \<open>The indices of a frame list are \<open>0..count-1\<close> in list order.\<close>

definition indices_ok :: "Frame list \<Rightarrow> bool" where
  "indices_ok fs = (map index fs = map int [0..<length fs])"

text \<open>
  Pointer down takes the snapshot for undo: the blob now stored for the active layer of the
  current frame (\<open>null\<close> when none is) is appended to the last 19 entries of the undo stack,
  and the redo stack is cleared. The stroke it starts is drawn by the brush engine on the
  canvas, which is not part of this state.
\<close>

definition handlePointerDown :: "App \<Rightarrow> error option \<times> App" where
  "handlePointerDown app =
     (if isPlaying app then (None, app)
      else case frame_at (frames app) (currentFrameIndex app) of
        None \<Rightarrow> (None, app)
      | Some frame \<Rightarrow>
          (case getLayer (layers frame (activeLayer app)) (storageManager app) of
             (Inl e, sm) \<Rightarrow> (Some e, app\<lparr>storageManager := sm\<rparr>)
           | (Inr currentBlob, sm) \<Rightarrow>
               (None, app\<lparr>storageManager := sm,
                          undoStack := drop (length (undoStack app) - 19) (undoStack app)
                                         @ [currentBlob],
                          redoStack := []\<rparr>)))"

text \<open>
  Pointer up saves the canvas, encoded by \<open>toBlob\<close>, as the active layer of the current
  frame; the encoded blob (\<open>null\<close> when the canvas cannot be encoded) is the argument.
\<close>

definition handlePointerUp :: "blob option \<Rightarrow> App \<Rightarrow> error option \<times> App" where
  "handlePointerUp encoded app =
     (case encoded of
        None \<Rightarrow> (None, app)
      | Some b \<Rightarrow>
          (case frame_at (frames app) (currentFrameIndex app) of
             None \<Rightarrow> (None, app)
           | Some frame \<Rightarrow>
               (case saveLayer (layers frame (activeLayer app)) b (storageManager app) of
                  (Inl e, sm) \<Rightarrow> (Some e, app\<lparr>storageManager := sm\<rparr>)
                | (Inr _, sm) \<Rightarrow> (None, app\<lparr>storageManager := sm\<rparr>))))"

definition undo :: "App \<Rightarrow> error option \<times> App" where
  "undo app =
     (if undoStack app = [] then (None, app)
      else case frame_at (frames app) (currentFrameIndex app) of
        None \<Rightarrow> (None, app)
      | Some frame \<Rightarrow>
          (let prevBlob = last (undoStack app);
               lid = layers frame (activeLayer app)
           in case getLayer lid (storageManager app) of
             (Inl e, sm1) \<Rightarrow> (Some e, app\<lparr>storageManager := sm1\<rparr>)
           | (Inr currentBlob, sm1) \<Rightarrow>
               (let app1 = app\<lparr>redoStack := redoStack app @ [currentBlob],
                               undoStack := butlast (undoStack app),
                               storageManager := sm1\<rparr>
                in case (case prevBlob of
                           Some b \<Rightarrow> saveLayer lid b sm1
                         | None \<Rightarrow> deleteLayer lid sm1) of
                     (Inl e, sm2) \<Rightarrow> (Some e, app1\<lparr>storageManager := sm2\<rparr>)
                   | (Inr _, sm2) \<Rightarrow> (None, app1\<lparr>storageManager := sm2\<rparr>))))"

definition redo :: "App \<Rightarrow> error option \<times> App" where
  "redo app =
     (if redoStack app = [] then (None, app)
      else case frame_at (frames app) (currentFrameIndex app) of
        None \<Rightarrow> (None, app)
      | Some frame \<Rightarrow>
          (let nextBlob = last (redoStack app);
               lid = layers frame (activeLayer app)
           in case getLayer lid (storageManager app) of
             (Inl e, sm1) \<Rightarrow> (Some e, app\<lparr>storageManager := sm1\<rparr>)
           | (Inr currentBlob, sm1) \<Rightarrow>
               (let app1 = app\<lparr>undoStack := undoStack app @ [currentBlob],
                               redoStack := butlast (redoStack app),
                               storageManager := sm1\<rparr>
                in case (case nextBlob of
                           Some b \<Rightarrow> saveLayer lid b sm1
                         | None \<Rightarrow> deleteLayer lid sm1) of
                     (Inl e, sm2) \<Rightarrow> (Some e, app1\<lparr>storageManager := sm2\<rparr>)
                   | (Inr _, sm2) \<Rightarrow> (None, app1\<lparr>storageManager := sm2\<rparr>))))"

text \<open>
  One mutation of the active layer is a pointer down followed by the pointer up that
  saves the result; \<open>mutations\<close> performs a sequence of them, \<open>undo_times\<close> and
  \<open>redo_times\<close> repeat undo and redo.
\<close>

definition mutation :: "blob option \<Rightarrow> App \<Rightarrow> App" where
  "mutation encoded app = snd (handlePointerUp encoded (snd (handlePointerDown app)))"

definition mutations :: "blob option list \<Rightarrow> App \<Rightarrow> App" where
  "mutations bs app = foldl (\<lambda>a b. mutation b a) app bs"

definition undo_times :: "nat \<Rightarrow> App \<Rightarrow> App" where
  "undo_times k app = ((\<lambda>a. snd (undo a)) ^^ k) app"

definition redo_times :: "nat \<Rightarrow> App \<Rightarrow> App" where
  "redo_times k app = ((\<lambda>a. snd (redo a)) ^^ k) app"

text \<open>The blob stored for the active layer of the current frame, if the frame exists.\<close>

definition active_blob :: "App \<Rightarrow> blob option" where
  "active_blob app =
     (case frame_at (frames app) (currentFrameIndex app) of
        None \<Rightarrow> None
      | Some frame \<Rightarrow> layers_store (storageManager app) (layers frame (activeLayer app)))"

text \<open>
  The situation in which the active layer can be edited: the store is initialised,
  playback is stopped, the current frame exists and its active layer has a (non-empty)
  id.
\<close>

definition editable :: "App \<Rightarrow> bool" where
  "editable app =
     (db (storageManager app) \<and> \<not> isPlaying app \<and>
      (case frame_at (frames app) (currentFrameIndex app) of
         None \<Rightarrow> False
       | Some frame \<Rightarrow> layers frame (activeLayer app) \<noteq> []))"

text \<open>
  Sample states: a manager that has not been initialised, and an application with two
  frames, their records stored, and the three layers of the first one stored.
\<close>

definition sm0 :: StorageManager where
  "sm0 = \<lparr>db = False, layers_store = Map.empty, frames_store = []\<rparr>"

definition frameA :: Frame where
  "frameA = createNewFrame (''fA'', ''a1'', ''a2'', ''a3'') 0"

definition frameB :: Frame where
  "frameB = createNewFrame (''fB'', ''b1'', ''b2'', ''b3'') 1"

definition store2 :: StorageManager where
  "store2 = \<lparr>db = True,
             layers_store = [''a1'' \<mapsto> [1], ''a2'' \<mapsto> [2], ''a3'' \<mapsto> [3]],
             frames_store = [(''fA'', frameA), (''fB'', frameB)]\<rparr>"

definition app2 :: App where
  "app2 = \<lparr>frames = [frameA, frameB], currentFrameIndex = 0, activeLayer = Lineart,
           isPlaying = False, undoStack = [], redoStack = [],
           storageManager = store2\<rparr>"

definition edits3 :: "blob option list" where
  "edits3 = [Some [7], None, Some [9]]"

definition app1 :: App where
  "app1 = \<lparr>frames = [frameA], currentFrameIndex = 0, activeLayer = Lineart,
           isPlaying = False, undoStack = [], redoStack = [],
           storageManager = store2\<rparr>"

definition ops3 :: "frame_op list" where
  "ops3 = [AddFrame (''fC'', ''c1'', ''c2'', ''c3''),
           DuplicateFrame 0 (''fD'', ''d1'', ''d2'', ''d3''),
           DeleteFrame 1,
           DeleteFrame 7]"

section \<open>Numbers\<close>

text \<open>
  A number of the program is a real number, an infinity or NaN. The operations follow
  the rules of the language for the special values (a comparison with NaN is false,
  \<open>0/0\<close> and \<open>\<infinity> - \<infinity>\<close> are NaN, \<open>x % 0\<close> is NaN). Zero has no sign (a zero divisor counts
  as \<open>+0\<close>). The operations \<open>jadd\<close>, \<open>jsub\<close>, \<open>jmul\<close> and \<open>jdiv\<close> are exact on finite values;
  their double-precision versions \<open>dadd\<close>, \<open>dsub\<close>, \<open>dmul\<close> and \<open>ddiv\<close> below round the exact
  result as IEEE 754 does. The playback loop is modelled with the rounded operations;
  the spline of the brush engine is evaluated with the exact ones.
\<close>

datatype jsnum = NaN | PInf | NInf | Fin real

fun jneg :: "jsnum \<Rightarrow> jsnum" where
  "jneg NaN = NaN"
| "jneg PInf = NInf"
| "jneg NInf = PInf"
| "jneg (Fin a) = Fin (- a)"

fun jadd :: "jsnum \<Rightarrow> jsnum \<Rightarrow> jsnum" where
  "jadd (Fin a) (Fin b) = Fin (a + b)"
| "jadd NaN _ = NaN"
| "jadd _ NaN = NaN"
| "jadd PInf NInf = NaN"
| "jadd NInf PInf = NaN"
| "jadd PInf _ = PInf"
| "jadd _ PInf = PInf"
| "jadd NInf _ = NInf"
| "jadd _ NInf = NInf"

definition jsub :: "jsnum \<Rightarrow> jsnum \<Rightarrow> jsnum" where
  "jsub a b = jadd a (jneg b)"

fun is_zero :: "jsnum \<Rightarrow> bool" where
  "is_zero (Fin a) = (a = 0)"
| "is_zero _ = False"

fun is_positive :: "jsnum \<Rightarrow> bool" where
  "is_positive (Fin a) = (0 < a)"
| "is_positive PInf = True"
| "is_positive _ = False"

fun jmul :: "jsnum \<Rightarrow> jsnum \<Rightarrow> jsnum" where
  "jmul (Fin a) (Fin b) = Fin (a * b)"
| "jmul NaN _ = NaN"
| "jmul _ NaN = NaN"
| "jmul a b =
     (if is_zero a \<or> is_zero b then NaN
      else if is_positive a = is_positive b then PInf else NInf)"

fun jdiv :: "jsnum \<Rightarrow> jsnum \<Rightarrow> jsnum" where
  "jdiv (Fin a) (Fin b) =
     (if b \<noteq> 0 then Fin (a / b)
      else if a = 0 then NaN else if 0 < a then PInf else NInf)"
| "jdiv NaN _ = NaN"
| "jdiv _ NaN = NaN"
| "jdiv (Fin a) _ = Fin 0"
| "jdiv PInf (Fin b) = (if 0 \<le> b then PInf else NInf)"
| "jdiv NInf (Fin b) = (if 0 \<le> b then NInf else PInf)"
| "jdiv _ _ = NaN"





text \<open>\<open>Math.pow(a, 2)\<close> and \<open>Math.pow(a, 0.5)\<close>, the two powers the program takes.\<close>

definition pow2 :: "jsnum \<Rightarrow> jsnum" where
  "pow2 a = jmul a a"

fun pow_half :: "jsnum \<Rightarrow> jsnum" where
  "pow_half (Fin a) = (if a < 0 then NaN else Fin (sqrt a))"
| "pow_half NaN = NaN"
| "pow_half _ = PInf"

fun is_finite :: "jsnum \<Rightarrow> bool" where
  "is_finite (Fin a) = True"
| "is_finite _ = False"

subsection \<open>Double precision\<close>

text \<open>
  Rounding of a real number to the nearest double, ties to even: \<open>binade x\<close> is the
  exponent of \<open>x\<close>, the spacing of the doubles around \<open>x\<close> is \<open>2\<close> to the power
  \<open>binade x - 52\<close> (and \<open>2\<close> to the power \<open>-1074\<close> in the subnormal range), and a result
  of magnitude \<open>2 ^ 1024\<close> or more is an infinity.
\<close>

definition binade :: "real \<Rightarrow> int" where
  "binade x = \<lfloor>log 2 \<bar>x\<bar>\<rfloor>"

definition rne :: "real \<Rightarrow> int" where
  "rne x =
     (let f = \<lfloor>x\<rfloor>; r = x - of_int f
      in if r < 1 / 2 then f else if 1 / 2 < r then f + 1 else if even f then f else f + 1)"

definition to_double :: "real \<Rightarrow> jsnum" where
  "to_double x =
     (if x = 0 then Fin 0
      else
        let u = 2 powi (max (binade x) (- 1022) - 52);
            r = u * of_int (rne (x / u))
        in if 2 ^ 1024 \<le> r then PInf else if r \<le> - (2 ^ 1024) then NInf else Fin r)"

definition rounded :: "jsnum \<Rightarrow> jsnum" where
  "rounded a = (case a of Fin x \<Rightarrow> to_double x | _ \<Rightarrow> a)"



definition dmul :: "jsnum \<Rightarrow> jsnum \<Rightarrow> jsnum" where
  "dmul a b = rounded (jmul a b)"

definition ddiv :: "jsnum \<Rightarrow> jsnum \<Rightarrow> jsnum" where
  "ddiv a b = rounded (jdiv a b)"

text \<open>
  \<open>Math.floor\<close> and \<open>%\<close> need no rounding: the floor of a double and the remainder of two
  doubles are doubles.
\<close>

section \<open>AnimationLoop (engine/AnimationLoop.ts)\<close>

record AnimationLoop =
  fps :: jsnum
  isPlaying :: bool
  lastTime :: jsnum
  frameInterval :: jsnum
  totalFrames :: jsnum
  currentFrame :: jsnum

text \<open>The loop as its constructor leaves it.\<close>

definition new_AnimationLoop :: AnimationLoop where
  "new_AnimationLoop =
     \<lparr>fps = Fin 12, isPlaying = False, lastTime = Fin 0,
      frameInterval = ddiv (Fin 1000) (Fin 12), totalFrames = Fin 0, currentFrame = Fin 0\<rparr>"

definition setFPS :: "jsnum \<Rightarrow> AnimationLoop \<Rightarrow> AnimationLoop" where
  "setFPS f s = s\<lparr>fps := f, frameInterval := ddiv (Fin 1000) f\<rparr>"

definition setTotalFrames :: "jsnum \<Rightarrow> AnimationLoop \<Rightarrow> AnimationLoop" where
  "setTotalFrames n s = s\<lparr>totalFrames := n\<rparr>"

text \<open>
  What one call leaves behind besides the new state: the frame indices passed to the
  \<open>onFrame\<close> callback, in order, and whether the next tick was requested with
  \<open>requestAnimationFrame\<close>.
\<close>

record tick =
  state :: AnimationLoop
  notified :: "jsnum list"
  requested :: bool

text \<open>\<open>start\<close>; the value of \<open>performance.now()\<close> is the argument \<open>now\<close>.\<close>

definition start :: "jsnum \<Rightarrow> jsnum \<Rightarrow> AnimationLoop \<Rightarrow> tick" where
  "start startFrame now s =
     \<lparr>state = s\<lparr>isPlaying := True, currentFrame := startFrame, lastTime := now\<rparr>,
      notified = [], requested = True\<rparr>"

definition stop :: "AnimationLoop \<Rightarrow> AnimationLoop" where
  "stop s = s\<lparr>isPlaying := False\<rparr>"



text \<open>
  The double nearest to \<open>1000 / 15\<close>, which is \<open>66.66666666666667\<close>; a loop playing 4 frames
  at 15 frames per second, at frame 2 since time 0; and the same loop with no frames.
\<close>

definition interval15 :: real where
  "interval15 = 4691249611844267 / 70368744177664"



section \<open>BrushEngine (engine/BrushEngine.ts): flood fill\<close>

text \<open>
  The pixels of the canvas as \<open>getImageData\<close> returns them and \<open>putImageData\<close> writes them
  back: width, height and a \<open>Uint8ClampedArray\<close> of \<open>4 * width * height\<close> bytes, four
  (red, green, blue, alpha) per pixel, row by row.
\<close>

type_synonym byte = "8 word"

record ImageData =
  width :: nat
  height :: nat
  data :: "byte list"

text \<open>
  Reading the array outside its bounds gives \<open>undefined\<close> (\<open>None\<close>); writing outside its
  bounds does nothing.
\<close>

definition rd :: "byte list \<Rightarrow> int \<Rightarrow> byte option" where
  "rd d i = (if 0 \<le> i \<and> i < int (length d) then Some (d ! nat i) else None)"

definition wr :: "byte list \<Rightarrow> int \<Rightarrow> byte \<Rightarrow> byte list" where
  "wr d i v = (if 0 \<le> i \<and> i < int (length d) then d[nat i := v] else d)"

type_synonym rgba = "byte option \<times> byte option \<times> byte option \<times> byte option"

definition getPixel :: "byte list \<Rightarrow> nat \<Rightarrow> int \<Rightarrow> int \<Rightarrow> rgba" where
  "getPixel d w x y =
     (let i = (y * int w + x) * 4 in (rd d i, rd d (i + 1), rd d (i + 2), rd d (i + 3)))"

fun colorsMatch :: "rgba \<Rightarrow> rgba \<Rightarrow> bool" where
  "colorsMatch (a0, a1, a2, a3) (b0, b1, b2, b3) = (a0 = b0 \<and> a1 = b1 \<and> a2 = b2 \<and> a3 = b3)"

text \<open>
  \<open>hexToRgb\<close>: an optional \<open>#\<close> followed by exactly six hexadecimal digits of either case;
  each pair of digits is one component.
\<close>

definition hex_digit :: "char \<Rightarrow> nat option" where
  "hex_digit c = map_of
     [(CHR ''0'', 0), (CHR ''1'', 1), (CHR ''2'', 2), (CHR ''3'', 3), (CHR ''4'', 4),
      (CHR ''5'', 5), (CHR ''6'', 6), (CHR ''7'', 7), (CHR ''8'', 8), (CHR ''9'', 9),
      (CHR ''a'', 10), (CHR ''b'', 11), (CHR ''c'', 12), (CHR ''d'', 13), (CHR ''e'', 14),
      (CHR ''f'', 15), (CHR ''A'', 10), (CHR ''B'', 11), (CHR ''C'', 12), (CHR ''D'', 13),
      (CHR ''E'', 14), (CHR ''F'', 15)] c"

definition hex_pair :: "char \<Rightarrow> char \<Rightarrow> byte option" where
  "hex_pair c1 c2 =
     (case (hex_digit c1, hex_digit c2) of
        (Some a, Some b) \<Rightarrow> Some (of_nat (16 * a + b))
      | _ \<Rightarrow> None)"

definition hexToRgb :: "string \<Rightarrow> (byte \<times> byte \<times> byte) option" where
  "hexToRgb hex =
     (case (case hex of c # cs \<Rightarrow> (if c = CHR ''#'' then cs else hex) | [] \<Rightarrow> hex) of
        [r1, r2, g1, g2, b1, b2] \<Rightarrow>
          (case (hex_pair r1 r2, hex_pair g1 g2, hex_pair b1 b2) of
             (Some r, Some g, Some b) \<Rightarrow> Some (r, g, b)
           | _ \<Rightarrow> None)
      | _ \<Rightarrow> None)"

text \<open>The four writes that paint the pixel at index \<open>i\<close> fully opaque.\<close>

definition paint :: "byte list \<Rightarrow> int \<Rightarrow> byte \<times> byte \<times> byte \<Rightarrow> byte list" where
  "paint d i fillRgb =
     (case fillRgb of (r, g, b) \<Rightarrow> wr (wr (wr (wr d i r) (i + 1) g) (i + 2) b) (i + 3) 255)"

text \<open>
  The loop of \<open>floodFill\<close> on its state, the array and the stack (the head of the list is
  the top of the stack). The loop need not end, so its result is an option: \<open>None\<close>
  stands for a loop that does not return.
\<close>

partial_function (option) flood_loop ::
  "nat \<Rightarrow> nat \<Rightarrow> rgba \<Rightarrow> byte \<times> byte \<times> byte \<Rightarrow> byte list \<Rightarrow> (int \<times> int) list
     \<Rightarrow> byte list option" where
  [code]: "flood_loop w h targetColor fillRgb d stack =
     (case stack of
        [] \<Rightarrow> Some d
      | (x, y) # rest \<Rightarrow>
          (if x < 0 \<or> x \<ge> int w \<or> y < 0 \<or> y \<ge> int h
           then flood_loop w h targetColor fillRgb d rest
           else if \<not> colorsMatch (getPixel d w x y) targetColor
           then flood_loop w h targetColor fillRgb d rest
           else flood_loop w h targetColor fillRgb (paint d ((y * int w + x) * 4) fillRgb)
                  ((x, y - 1) # (x, y + 1) # (x - 1, y) # (x + 1, y) # rest)))"

text \<open>
  The same loop, recording the coordinates of every pixel it overwrites, in the order of
  the writes.
\<close>

partial_function (option) flood_trace ::
  "nat \<Rightarrow> nat \<Rightarrow> rgba \<Rightarrow> byte \<times> byte \<times> byte \<Rightarrow> byte list \<Rightarrow> (int \<times> int) list
     \<Rightarrow> (int \<times> int) list \<Rightarrow> (byte list \<times> (int \<times> int) list) option" where
  [code]: "flood_trace w h targetColor fillRgb d stack painted =
     (case stack of
        [] \<Rightarrow> Some (d, painted)
      | (x, y) # rest \<Rightarrow>
          (if x < 0 \<or> x \<ge> int w \<or> y < 0 \<or> y \<ge> int h
           then flood_trace w h targetColor fillRgb d rest painted
           else if \<not> colorsMatch (getPixel d w x y) targetColor
           then flood_trace w h targetColor fillRgb d rest painted
           else flood_trace w h targetColor fillRgb (paint d ((y * int w + x) * 4) fillRgb)
                  ((x, y - 1) # (x, y + 1) # (x - 1, y) # (x + 1, y) # rest)
                  (painted @ [(x, y)])))"

text \<open>
  \<open>floodFill\<close> on the image data of the canvas; \<open>None\<close> when it does not return. The seed
  coordinates are integers (they are rounded by the caller).
\<close>

definition opaque :: "byte \<times> byte \<times> byte \<Rightarrow> rgba" where
  "opaque fillRgb = (case fillRgb of (r, g, b) \<Rightarrow> (Some r, Some g, Some b, Some 255))"

definition floodFill :: "int \<Rightarrow> int \<Rightarrow> string \<Rightarrow> ImageData \<Rightarrow> ImageData option" where
  "floodFill startX startY fillColor img =
     (let targetColor = getPixel (data img) (width img) startX startY in
      case hexToRgb fillColor of
        None \<Rightarrow> Some img
      | Some fillRgb \<Rightarrow>
          if colorsMatch targetColor (opaque fillRgb) then Some img
          else map_option (\<lambda>d. img\<lparr>data := d\<rparr>)
                 (flood_loop (width img) (height img) targetColor fillRgb (data img)
                    [(startX, startY)]))"

text \<open>The pixels \<open>floodFill\<close> overwrites, in order, one entry for every write of a pixel.\<close>

definition floodFill_painted :: "int \<Rightarrow> int \<Rightarrow> string \<Rightarrow> ImageData \<Rightarrow> (int \<times> int) list option" where
  "floodFill_painted startX startY fillColor img =
     (let targetColor = getPixel (data img) (width img) startX startY in
      case hexToRgb fillColor of
        None \<Rightarrow> Some []
      | Some fillRgb \<Rightarrow>
          if colorsMatch targetColor (opaque fillRgb) then Some []
          else map_option snd
                 (flood_trace (width img) (height img) targetColor fillRgb (data img)
                    [(startX, startY)] []))"

text \<open>
  Vocabulary of the fill: a coordinate inside the canvas, the colour of a pixel, the four
  axis neighbours, a well-formed image, and the region of a seed: the pixels connected
  to it through axis neighbours that all have the colour of the seed.
\<close>

definition in_canvas :: "nat \<Rightarrow> nat \<Rightarrow> int \<times> int \<Rightarrow> bool" where
  "in_canvas w h p = (0 \<le> fst p \<and> fst p < int w \<and> 0 \<le> snd p \<and> snd p < int h)"

definition pixel :: "ImageData \<Rightarrow> int \<times> int \<Rightarrow> rgba" where
  "pixel img p = getPixel (data img) (width img) (fst p) (snd p)"

definition neighbours :: "int \<times> int \<Rightarrow> (int \<times> int) list" where
  "neighbours p = [(fst p, snd p - 1), (fst p, snd p + 1), (fst p - 1, snd p), (fst p + 1, snd p)]"

definition well_formed :: "ImageData \<Rightarrow> bool" where
  "well_formed img = (length (data img) = 4 * width img * height img)"

inductive_set region :: "ImageData \<Rightarrow> int \<times> int \<Rightarrow> (int \<times> int) set"
  for img :: ImageData and s :: "int \<times> int" where
  seed: "in_canvas (width img) (height img) s \<Longrightarrow> s \<in> region img s"
| step: "p \<in> region img s \<Longrightarrow> q \<in> set (neighbours p) \<Longrightarrow>
         in_canvas (width img) (height img) q \<Longrightarrow> pixel img q = pixel img s \<Longrightarrow>
         q \<in> region img s"

text \<open>
  The invariant of the loop, for the image \<open>img\<close> the fill started from, its seed \<open>s\<close> and
  the fill colour: the array keeps its length; a pixel has the fill colour if it has
  been painted and its original colour otherwise; the painted pixels are distinct
  pixels of the region; every stacked coordinate is the seed or a neighbour of a painted
  pixel; the seed is painted or stacked; and every neighbour of a painted pixel that
  belongs to the region is painted or stacked.
\<close>

definition fill_inv ::
  "ImageData \<Rightarrow> int \<times> int \<Rightarrow> byte \<times> byte \<times> byte \<Rightarrow> byte list \<Rightarrow> (int \<times> int) list
     \<Rightarrow> (int \<times> int) list \<Rightarrow> bool" where
  "fill_inv img s fillRgb d stack painted =
     (length d = length (data img) \<and>
      (\<forall>p. in_canvas (width img) (height img) p \<longrightarrow>
         getPixel d (width img) (fst p) (snd p)
           = (if p \<in> set painted then opaque fillRgb else pixel img p)) \<and>
      set painted \<subseteq> region img s \<and> distinct painted \<and>
      (\<forall>q\<in>set stack. q = s \<or> (\<exists>p\<in>set painted. q \<in> set (neighbours p))) \<and>
      (s \<in> set painted \<or> s \<in> set stack) \<and>
      (\<forall>p\<in>set painted. \<forall>q\<in>set (neighbours p).
         q \<in> region img s \<longrightarrow> q \<in> set painted \<or> q \<in> set stack))"

text \<open>
  A canvas of 2 by 2 pixels: grey at (0,0), (1,0) and (1,1), another colour at (0,1); and
  the same canvas with the grey pixels painted green.
\<close>

definition img1 :: ImageData where
  "img1 = \<lparr>width = 2, height = 2,
           data = [1, 1, 1, 255,  1, 1, 1, 255,  9, 9, 9, 255,  1, 1, 1, 255]\<rparr>"

definition img1_filled :: ImageData where
  "img1_filled = \<lparr>width = 2, height = 2,
           data = [0, 255, 0, 255,  0, 255, 0, 255,  9, 9, 9, 255,  0, 255, 0, 255]\<rparr>"

section \<open>BrushEngine (engine/BrushEngine.ts): strokes\<close>

text \<open>
  A pointer sample and the brush settings. The coordinates \<open>x\<close> and \<open>y\<close> of a point are the
  fields \<open>pt_x\<close> and \<open>pt_y\<close>, and the \<open>size\<close> of the settings is \<open>brush_size\<close>.
\<close>

record Point =
  pt_x :: jsnum
  pt_y :: jsnum
  pressure :: jsnum
  tiltX :: jsnum
  tiltY :: jsnum
  timestamp :: jsnum

datatype ToolType = Brush | Eraser | Select | Fill

record BrushSettings =
  tool :: ToolType
  brush_size :: jsnum
  color :: string
  opacity :: jsnum
  smoothing :: jsnum

subsection \<open>The 2D context of the canvas\<close>

text \<open>
  Modelled from the HTML specification of \<open>CanvasRenderingContext2D\<close>, which the engine
  draws with: the part of the drawing state the engine sets, the current path (a list
  of subpaths, each a list of points), the stack of saved drawing states, and a record
  of what has been stroked. \<open>stroke()\<close> strokes the whole current path with the line
  width, cap and join the context has when it is called. \<open>moveTo\<close> and \<open>lineTo\<close> return
  without effect when a coordinate is not finite; a line width that is not a positive
  finite number, and a line cap or join that is not one of the three keywords, is
  ignored. Colours and composite operations are kept as the strings assigned.
\<close>

record DrawingState =
  lineWidth :: real
  lineCap :: string
  lineJoin :: string
  strokeStyle :: string
  globalCompositeOperation :: string

record Stroked =
  stroked_path :: "(real \<times> real) list list"
  stroked_with :: DrawingState

record Context2D =
  drawing :: DrawingState
  path :: "(real \<times> real) list list"
  saved :: "DrawingState list"
  drawn :: "Stroked list"

definition save :: "Context2D \<Rightarrow> Context2D" where
  "save c = c\<lparr>saved := drawing c # saved c\<rparr>"

definition restore :: "Context2D \<Rightarrow> Context2D" where
  "restore c = (case saved c of [] \<Rightarrow> c | s # rest \<Rightarrow> c\<lparr>drawing := s, saved := rest\<rparr>)"

definition beginPath :: "Context2D \<Rightarrow> Context2D" where
  "beginPath c = c\<lparr>path := []\<rparr>"

definition moveTo :: "jsnum \<Rightarrow> jsnum \<Rightarrow> Context2D \<Rightarrow> Context2D" where
  "moveTo a b c =
     (case (a, b) of
        (Fin u, Fin v) \<Rightarrow> c\<lparr>path := path c @ [[(u, v)]]\<rparr>
      | _ \<Rightarrow> c)"

definition lineTo :: "jsnum \<Rightarrow> jsnum \<Rightarrow> Context2D \<Rightarrow> Context2D" where
  "lineTo a b c =
     (case (a, b) of
        (Fin u, Fin v) \<Rightarrow>
          (if path c = [] then c\<lparr>path := [[(u, v)]]\<rparr>
           else c\<lparr>path := butlast (path c) @ [last (path c) @ [(u, v)]]\<rparr>)
      | _ \<Rightarrow> c)"

definition stroke :: "Context2D \<Rightarrow> Context2D" where
  "stroke c = c\<lparr>drawn := drawn c @ [\<lparr>stroked_path = path c, stroked_with = drawing c\<rparr>]\<rparr>"

definition set_lineWidth :: "jsnum \<Rightarrow> Context2D \<Rightarrow> Context2D" where
  "set_lineWidth v c =
     (case v of
        Fin a \<Rightarrow> (if 0 < a then c\<lparr>drawing := (drawing c)\<lparr>lineWidth := a\<rparr>\<rparr> else c)
      | _ \<Rightarrow> c)"

definition set_lineCap :: "string \<Rightarrow> Context2D \<Rightarrow> Context2D" where
  "set_lineCap v c =
     (if v \<in> set [''butt'', ''round'', ''square'']
      then c\<lparr>drawing := (drawing c)\<lparr>lineCap := v\<rparr>\<rparr> else c)"

definition set_lineJoin :: "string \<Rightarrow> Context2D \<Rightarrow> Context2D" where
  "set_lineJoin v c =
     (if v \<in> set [''bevel'', ''round'', ''miter'']
      then c\<lparr>drawing := (drawing c)\<lparr>lineJoin := v\<rparr>\<rparr> else c)"

definition set_strokeStyle :: "string \<Rightarrow> Context2D \<Rightarrow> Context2D" where
  "set_strokeStyle v c = c\<lparr>drawing := (drawing c)\<lparr>strokeStyle := v\<rparr>\<rparr>"

definition set_globalCompositeOperation :: "string \<Rightarrow> Context2D \<Rightarrow> Context2D" where
  "set_globalCompositeOperation v c =
     c\<lparr>drawing := (drawing c)\<lparr>globalCompositeOperation := v\<rparr>\<rparr>"

subsection \<open>The engine\<close>

text \<open>
  The stroke state of the engine: the samples of the current stroke and the context.
  \<open>startStroke\<close> with the fill tool also runs \<open>floodFill\<close> on the pixels of the canvas;
  that effect is the function \<open>floodFill\<close> above and is not part of this state.
\<close>

record BrushEngine =
  points :: "Point list"
  ctx :: Context2D

definition startStroke :: "Point \<Rightarrow> BrushSettings \<Rightarrow> BrushEngine \<Rightarrow> BrushEngine" where
  "startStroke point settings e = e\<lparr>points := [point]\<rparr>"

definition endStroke :: "BrushEngine \<Rightarrow> BrushEngine" where
  "endStroke e = e\<lparr>points := []\<rparr>"

definition drawSimpleLine :: "Point list \<Rightarrow> BrushSettings \<Rightarrow> Context2D \<Rightarrow> Context2D" where
  "drawSimpleLine pts settings c =
     (if length pts < 2 then c
      else
        let p1 = pts ! (length pts - 2);
            p2 = pts ! (length pts - 1);
            c = beginPath c;
            c = set_lineCap ''round'' c;
            c = set_lineJoin ''round'' c;
            c = set_strokeStyle (color settings) c;
            c = set_lineWidth (jmul (brush_size settings) (pressure p2)) c;
            c = moveTo (pt_x p1) (pt_y p1) c;
            c = lineTo (pt_x p2) (pt_y p2) c
        in stroke c)"

text \<open>\<open>getT\<close>, with \<open>alpha = 0.5\<close>.\<close>

definition getT :: "jsnum \<Rightarrow> Point \<Rightarrow> Point \<Rightarrow> jsnum" where
  "getT t pA pB =
     (let d = pow_half (jadd (pow2 (jsub (pt_x pB) (pt_x pA))) (pow2 (jsub (pt_y pB) (pt_y pA))))
      in jadd (pow_half d) t)"

text \<open>The knots \<open>t0\<close>, \<open>t1\<close>, \<open>t2\<close>, \<open>t3\<close> of four control points.\<close>

definition knots :: "Point \<Rightarrow> Point \<Rightarrow> Point \<Rightarrow> Point \<Rightarrow> jsnum \<times> jsnum \<times> jsnum \<times> jsnum" where
  "knots p0 p1 p2 p3 =
     (let t0 = Fin 0;
          t1 = getT t0 p0 p1;
          t2 = getT t1 p1 p2;
          t3 = getT t2 p2 p3
      in (t0, t1, t2, t3))"

text \<open>
  One blend of the evaluation, \<open>(hi - t) / (hi - lo) * a + (t - lo) / (hi - lo) * b\<close>: the
  form of each of the twelve assignments \<open>a1x\<close> ... \<open>cy\<close> of the loop body.
\<close>

definition blend :: "jsnum \<Rightarrow> jsnum \<Rightarrow> jsnum \<Rightarrow> jsnum \<Rightarrow> jsnum \<Rightarrow> jsnum" where
  "blend lo hi t a b =
     jadd (jmul (jdiv (jsub hi t) (jsub hi lo)) a) (jmul (jdiv (jsub t lo) (jsub hi lo)) b)"

definition steps :: nat where
  "steps = 10"

text \<open>The parameter \<open>t\<close> and the point \<open>(cx, cy)\<close> of the curve at step \<open>i\<close>.\<close>

definition curve_param :: "jsnum \<times> jsnum \<times> jsnum \<times> jsnum \<Rightarrow> nat \<Rightarrow> jsnum" where
  "curve_param ts i =
     (case ts of (t0, t1, t2, t3) \<Rightarrow>
        jadd t1 (jmul (jdiv (Fin (real i)) (Fin (real steps))) (jsub t2 t1)))"

definition curve_point ::
  "Point \<Rightarrow> Point \<Rightarrow> Point \<Rightarrow> Point \<Rightarrow> jsnum \<times> jsnum \<times> jsnum \<times> jsnum \<Rightarrow> nat
     \<Rightarrow> jsnum \<times> jsnum" where
  "curve_point p0 p1 p2 p3 ts i =
     (case ts of (t0, t1, t2, t3) \<Rightarrow>
        let t = curve_param ts i;
            a1x = blend t0 t1 t (pt_x p0) (pt_x p1);
            a1y = blend t0 t1 t (pt_y p0) (pt_y p1);
            a2x = blend t1 t2 t (pt_x p1) (pt_x p2);
            a2y = blend t1 t2 t (pt_y p1) (pt_y p2);
            a3x = blend t2 t3 t (pt_x p2) (pt_x p3);
            a3y = blend t2 t3 t (pt_y p2) (pt_y p3);
            b1x = blend t0 t2 t a1x a2x;
            b1y = blend t0 t2 t a1y a2y;
            b2x = blend t1 t3 t a2x a3x;
            b2y = blend t1 t3 t a2y a3y;
            cx = blend t1 t2 t b1x b2x;
            cy = blend t1 t2 t b1y b2y
        in (cx, cy))"

text \<open>The pressure assigned at step \<open>i\<close>.\<close>

definition step_pressure :: "Point \<Rightarrow> Point \<Rightarrow> nat \<Rightarrow> jsnum" where
  "step_pressure p1 p2 i =
     jadd (pressure p1)
       (jmul (jdiv (Fin (real i)) (Fin (real steps))) (jsub (pressure p2) (pressure p1)))"

text \<open>
  The loop \<open>for (let i = 0; i <= steps; i++)\<close> of \<open>drawSpline\<close>: \<open>spline_step\<close> is its body
  at step \<open>i\<close>, \<open>spline_loop\<close> the loop from step \<open>i\<close> on.
\<close>

definition spline_step ::
  "Point \<Rightarrow> Point \<Rightarrow> Point \<Rightarrow> Point \<Rightarrow> jsnum \<times> jsnum \<times> jsnum \<times> jsnum \<Rightarrow> BrushSettings
     \<Rightarrow> nat \<Rightarrow> Context2D \<Rightarrow> Context2D" where
  "spline_step p0 p1 p2 p3 ts settings i c =
     (case curve_point p0 p1 p2 p3 ts i of (cx, cy) \<Rightarrow>
        let c1 = set_lineWidth (jmul (brush_size settings) (step_pressure p1 p2 i)) c
        in if i = 0 then moveTo cx cy c1 else lineTo cx cy c1)"

function spline_loop ::
  "Point \<Rightarrow> Point \<Rightarrow> Point \<Rightarrow> Point \<Rightarrow> jsnum \<times> jsnum \<times> jsnum \<times> jsnum \<Rightarrow> BrushSettings
     \<Rightarrow> nat \<Rightarrow> Context2D \<Rightarrow> Context2D" where
  "spline_loop p0 p1 p2 p3 ts settings i c =
     (if i \<le> steps
      then spline_loop p0 p1 p2 p3 ts settings (i + 1) (spline_step p0 p1 p2 p3 ts settings i c)
      else c)"
  by pat_completeness auto
termination
  by (relation "measure (\<lambda>(p0, p1, p2, p3, ts, settings, i, c). Suc steps - i)") auto

declare spline_loop.simps [simp del]

text \<open>
  \<open>drawSpline\<close>; with fewer than four points the read of a coordinate of \<open>undefined\<close>
  raises a TypeError.
\<close>

definition drawSpline :: "Point list \<Rightarrow> BrushSettings \<Rightarrow> Context2D \<Rightarrow> error + Context2D" where
  "drawSpline pts settings c =
     (let len = length pts in
      if len < 4 then Inl TypeError
      else
        let p0 = pts ! (len - 4);
            p1 = pts ! (len - 3);
            p2 = pts ! (len - 2);
            p3 = pts ! (len - 1);
            ts = knots p0 p1 p2 p3;
            c = beginPath c;
            c = set_lineCap ''round'' c;
            c = set_lineJoin ''round'' c;
            c = set_strokeStyle (color settings) c;
            c = spline_loop p0 p1 p2 p3 ts settings 0 c
        in Inr (stroke c))"

definition addPoint :: "Point \<Rightarrow> BrushSettings \<Rightarrow> BrushEngine \<Rightarrow> error + BrushEngine" where
  "addPoint point settings e =
     (if tool settings = Fill \<or> tool settings = Select then Inr e
      else
        let e1 = e\<lparr>points := points e @ [point]\<rparr>;
            c = save (ctx e1);
            c = (if tool settings = Eraser
                 then set_globalCompositeOperation ''destination-out'' c else c)
        in if length (points e1) < 4
           then Inr (e1\<lparr>ctx := restore (drawSimpleLine (points e1) settings c)\<rparr>)
           else (case drawSpline (points e1) settings c of
                   Inl err \<Rightarrow> Inl err
                 | Inr c' \<Rightarrow> Inr (e1\<lparr>ctx := restore c'\<rparr>)))"

text \<open>
  Sample strokes: a fresh context; a brush of size 10; four samples on a line, one unit
  apart, with pressures 0.5, 0.5, 1, 1; and four samples of which the first two
  coincide.
\<close>

definition ctx0 :: Context2D where
  "ctx0 = \<lparr>drawing = \<lparr>lineWidth = 1, lineCap = ''butt'', lineJoin = ''miter'',
                       strokeStyle = ''#000000'', globalCompositeOperation = ''source-over''\<rparr>,
           path = [], saved = [], drawn = []\<rparr>"

definition brush10 :: BrushSettings where
  "brush10 = \<lparr>tool = Brush, brush_size = Fin 10, color = ''#000000'', opacity = Fin 1,
              smoothing = Fin (1 / 2)\<rparr>"

definition sample :: "real \<Rightarrow> real \<Rightarrow> real \<Rightarrow> Point" where
  "sample a b pr = \<lparr>pt_x = Fin a, pt_y = Fin b, pressure = Fin pr, tiltX = Fin 0,
                    tiltY = Fin 0, timestamp = Fin 0\<rparr>"

definition line_stroke :: "Point list" where
  "line_stroke = [sample 0 0 (1 / 2), sample 1 0 (1 / 2), sample 2 0 1, sample 3 0 1]"

definition stalled_stroke :: "Point list" where
  "stalled_stroke = [sample 0 0 (1 / 2), sample 0 0 (1 / 2), sample 1 0 (1 / 2), sample 2 0 (1 / 2)]"

text \<open>The engine after the first three samples of a stroke, on a fresh context.\<close>

definition engine_after3 :: "Point list \<Rightarrow> BrushEngine" where
  "engine_after3 pts = \<lparr>points = take 3 pts, ctx = ctx0\<rparr>"

text \<open>The eleven points from (1, 0) to (2, 0), a tenth of a unit apart.\<close>

definition tenths :: "(real \<times> real) list" where
  "tenths = [(1, 0), (11 / 10, 0), (6 / 5, 0), (13 / 10, 0), (7 / 5, 0), (3 / 2, 0),
             (8 / 5, 0), (17 / 10, 0), (9 / 5, 0), (19 / 10, 0), (2, 0)]"

section \<open>The store before initialisation\<close>

text \<open>
  Claim C9. Every persistence operation (saveLayer, getLayer, deleteLayer, copyLayer,
  saveFrame, getAllFrames) invoked while the manager is not initialised fails with the
  "not initialized" error and leaves both object stores as they were.
\<close>

theorem storage_uninitialized_fails:
  "\<not> db sm \<Longrightarrow>
     saveLayer lid b sm = (Inl DBNotInitialized, sm) \<and>
     getLayer lid sm = (Inl DBNotInitialized, sm) \<and>
     deleteLayer lid sm = (Inl DBNotInitialized, sm) \<and>
     copyLayer lid lid' sm = (Inl DBNotInitialized, sm) \<and>
     saveFrame f sm = (Inl DBNotInitialized, sm) \<and>
     getAllFrames sm = (Inl DBNotInitialized, sm)"
  by (simp add: saveLayer_def getLayer_def deleteLayer_def copyLayer_def saveFrame_def
      getAllFrames_def)

theorem storage_uninitialized_fails_witness:
  "\<not> db sm0 \<and>
     saveLayer ''a1'' [1] sm0 = (Inl DBNotInitialized, sm0) \<and>
     getLayer ''a1'' sm0 = (Inl DBNotInitialized, sm0) \<and>
     deleteLayer ''a1'' sm0 = (Inl DBNotInitialized, sm0) \<and>
     copyLayer ''a1'' ''b1'' sm0 = (Inl DBNotInitialized, sm0) \<and>
     saveFrame frameA sm0 = (Inl DBNotInitialized, sm0) \<and>
     getAllFrames sm0 = (Inl DBNotInitialized, sm0)"
  using storage_uninitialized_fails [of sm0 "''a1''" "[1]" "''b1''" frameA]
  by (simp add: sm0_def)

section \<open>Frame operations\<close>

text \<open>
  Claim C8. Deleting a frame when exactly one frame exists is a no-op: the handler
  completes and the whole state (frame list, current frame index, persisted store) is
  the one it started from.
\<close>

theorem deleteFrame_last_frame_rejected:
  "length (frames app) = 1 \<Longrightarrow> deleteFrame i app = (None, app)"
  by (simp add: deleteFrame_def)

theorem deleteFrame_last_frame_rejected_witness:
  "length (frames app1) = 1 \<and> deleteFrame 0 app1 = (None, app1)"
  using deleteFrame_last_frame_rejected [of app1 0]
  by (simp add: app1_def)

text \<open>No deletion empties a frame list that has a frame.\<close>

lemma deleteFrame_keeps_a_frame:
  "1 \<le> length (frames app) \<Longrightarrow> 1 \<le> length (frames (snd (deleteFrame i app)))"
  by (auto simp: deleteFrame_def Let_def reindex_def frame_at_def
      split: option.splits prod.splits sum.splits)

lemma length_reindex [simp]: "length (reindex fs) = length fs"
  by (simp add: reindex_def)

lemma index_reindex: "map index (reindex fs) = map int [0..<length fs]"
  unfolding reindex_def
  by (rule nth_equalityI) simp_all

lemma indices_ok_reindex: "indices_ok (reindex fs)"
  by (simp add: indices_ok_def index_reindex)

lemma index_createNewFrame [simp]: "index (createNewFrame u i) = i"
  by (cases u) (simp add: createNewFrame_def)

lemma addFrame_indices:
  "indices_ok (frames app) \<Longrightarrow> indices_ok (frames (snd (addFrame u app)))"
  by (auto simp: addFrame_def Let_def indices_ok_def split: prod.splits sum.splits)

lemma duplicateFrame_indices:
  "indices_ok (frames app) \<Longrightarrow> indices_ok (frames (snd (duplicateFrame i u app)))"
  by (auto simp: duplicateFrame_def Let_def indices_ok_reindex
      split: option.splits prod.splits sum.splits)

lemma deleteFrame_indices:
  "indices_ok (frames app) \<Longrightarrow> indices_ok (frames (snd (deleteFrame i app)))"
  by (auto simp: deleteFrame_def Let_def indices_ok_reindex
      split: option.splits prod.splits sum.splits)

lemma apply_frame_op_indices:
  "indices_ok (frames app) \<Longrightarrow> indices_ok (frames (apply_frame_op p app))"
  by (cases p) (simp_all add: addFrame_indices duplicateFrame_indices deleteFrame_indices)

text \<open>
  Claim C4. Starting from a frame list whose indices are \<open>0..count-1\<close>, after any sequence
  of add, duplicate and delete operations the index fields of the frame list are again
  exactly \<open>0..count-1\<close> in list order.
\<close>

theorem frame_indices_contiguous:
  "indices_ok (frames app) \<Longrightarrow> indices_ok (frames (apply_frame_ops ops app))"
  unfolding apply_frame_ops_def
  by (induction ops arbitrary: app) (simp_all add: apply_frame_op_indices)

theorem frame_indices_contiguous_witness:
  "indices_ok (frames app2) \<and> indices_ok (frames (apply_frame_ops ops3 app2)) \<and>
   map frame_id (frames (apply_frame_ops ops3 app2)) = [''fA'', ''fB'', ''fC'']"
proof -
  have a: "indices_ok (frames app2)"
    by (simp add: indices_ok_def app2_def frameA_def frameB_def)
  have b: "map frame_id (frames (apply_frame_ops ops3 app2)) = [''fA'', ''fB'', ''fC'']"
    by (simp add: apply_frame_ops_def ops3_def app2_def store2_def addFrame_def
        duplicateFrame_def deleteFrame_def frame_at_def copyLayer_def getLayer_def
        saveLayer_def deleteLayer_def saveFrame_def reindex_def Let_def frameA_def frameB_def
        createNewFrame_def)
  show ?thesis
    using frame_indices_contiguous [OF a, of ops3] a b by simp
qed

lemma frame_id_reindex: "map frame_id (reindex fs) = map frame_id fs"
  unfolding reindex_def
  by (rule nth_equalityI) simp_all

text \<open>
  What \<open>deleteFrame\<close> does with an initialised store, more than one frame and an index
  inside the list: it completes, the frame list becomes the old one without the frame at
  that index, re-indexed, and the blob of each of the three layers of that frame (of
  every layer whose id is not empty) is deleted from the layers collection. It does not
  touch the frames collection.
\<close>

lemma deleteFrame_destroys_layers:
  assumes "db (storageManager app)" and "1 < length (frames app)"
    and "frame_at (frames app) i = Some f"
  shows "fst (deleteFrame i app) = None"
    and "frames (snd (deleteFrame i app))
      = reindex (take (nat i) (frames app) @ drop (nat i + 1) (frames app))"
    and "map frame_id (frames (snd (deleteFrame i app)))
      = take (nat i) (map frame_id (frames app)) @ drop (nat i + 1) (map frame_id (frames app))"
    and "layers f t \<noteq> [] \<Longrightarrow>
       layers_store (storageManager (snd (deleteFrame i app))) (layers f t) = None"
    and "frames_store (storageManager (snd (deleteFrame i app)))
      = frames_store (storageManager app)"
proof -
  show "fst (deleteFrame i app) = None"
    using assms by (auto simp: deleteFrame_def deleteLayer_def Let_def)
  show l: "frames (snd (deleteFrame i app))
      = reindex (take (nat i) (frames app) @ drop (nat i + 1) (frames app))"
    using assms by (auto simp: deleteFrame_def deleteLayer_def Let_def)
  show "map frame_id (frames (snd (deleteFrame i app)))
      = take (nat i) (map frame_id (frames app)) @ drop (nat i + 1) (map frame_id (frames app))"
    by (simp only: l frame_id_reindex map_append take_map drop_map)
  show "layers f t \<noteq> [] \<Longrightarrow>
       layers_store (storageManager (snd (deleteFrame i app))) (layers f t) = None"
    using assms by (cases t) (auto simp: deleteFrame_def deleteLayer_def Let_def)
  show "frames_store (storageManager (snd (deleteFrame i app)))
      = frames_store (storageManager app)"
    using assms by (auto simp: deleteFrame_def deleteLayer_def Let_def)
qed

text \<open>
  Claim C5 says that deleting a frame destroys the persisted record of the frame and its
  three layer records. \<open>deleteFrame\<close> deletes the three layer blobs, but it never removes
  the record from the frames collection, in which \<open>addFrame\<close> and \<open>duplicateFrame\<close> store
  it and from which the frame list is loaded at start. In \<open>app2\<close>, whose two frames and
  the three layers of the first one are stored, deleting the first frame completes,
  leaves the second frame alone in the list and deletes the three blobs; the record of
  the deleted frame is still stored and \<open>getAllFrames\<close> still returns it.
\<close>

theorem deleteFrame_keeps_frame_record:
  "1 < length (frames app2) \<and> frame_at (frames app2) 0 = Some frameA \<and>
   map_of (frames_store (storageManager app2)) ''fA'' = Some frameA \<and>
   layers_store (storageManager app2) (layers frameA Background) = Some [1] \<and>
   layers_store (storageManager app2) (layers frameA Lineart) = Some [2] \<and>
   layers_store (storageManager app2) (layers frameA Color) = Some [3] \<and>
   fst (deleteFrame 0 app2) = None \<and>
   map frame_id (frames (snd (deleteFrame 0 app2))) = [''fB''] \<and>
   layers_store (storageManager (snd (deleteFrame 0 app2))) (layers frameA Background) = None \<and>
   layers_store (storageManager (snd (deleteFrame 0 app2))) (layers frameA Lineart) = None \<and>
   layers_store (storageManager (snd (deleteFrame 0 app2))) (layers frameA Color) = None \<and>
   map_of (frames_store (storageManager (snd (deleteFrame 0 app2)))) ''fA'' = Some frameA \<and>
   frameA \<in> set (case fst (getAllFrames (storageManager (snd (deleteFrame 0 app2)))) of
                    Inl e \<Rightarrow> [] | Inr fs \<Rightarrow> fs)"
  by (simp add: app2_def store2_def deleteFrame_def frame_at_def deleteLayer_def Let_def
      frameA_def frameB_def createNewFrame_def reindex_def getAllFrames_def)

section \<open>Undo and redo\<close>

lemma editable_handlePointerDown:
  "editable app \<Longrightarrow> editable (snd (handlePointerDown app))"
  by (auto simp: editable_def handlePointerDown_def getLayer_def split: option.splits)

lemma editable_handlePointerUp:
  "editable app \<Longrightarrow> editable (snd (handlePointerUp e app))"
  by (auto simp: editable_def handlePointerUp_def saveLayer_def split: option.splits)

lemma editable_mutation: "editable app \<Longrightarrow> editable (mutation e app)"
  by (simp add: mutation_def editable_handlePointerDown editable_handlePointerUp)

lemma undoStack_mutation:
  "editable app \<Longrightarrow>
   length (undoStack (mutation e app)) = min 19 (length (undoStack app)) + 1"
  by (auto simp: mutation_def editable_def handlePointerDown_def handlePointerUp_def
      getLayer_def saveLayer_def split: option.splits)

lemma mutations_snoc: "mutations (bs @ [b]) app = mutation b (mutations bs app)"
  by (simp add: mutations_def)

lemma editable_mutations: "editable app \<Longrightarrow> editable (mutations bs app)"
  by (induction bs rule: rev_induct) (simp_all add: mutations_def editable_mutation)

text \<open>Up to 20 mutations leave at least as many snapshots on the undo stack.\<close>

lemma undoStack_mutations:
  "editable app \<Longrightarrow> length bs \<le> 20 \<Longrightarrow> length bs \<le> length (undoStack (mutations bs app))"
proof (induction bs rule: rev_induct)
  case Nil
  then show ?case by simp
next
  case (snoc b bs)
  define n where "n = length (undoStack (mutations bs app))"
  have le: "length bs < 20" using snoc.prems(2) by simp
  then have "length bs \<le> n" using snoc.IH snoc.prems(1) by (simp add: n_def)
  moreover have "length (undoStack (mutations (bs @ [b]) app)) = min 19 n + 1"
    using snoc.prems(1)
    by (simp only: mutations_snoc undoStack_mutation editable_mutations n_def)
  ultimately have "length bs + 1 \<le> length (undoStack (mutations (bs @ [b]) app))"
    using le by linarith
  then show ?case by simp
qed

lemma editable_undo: "editable app \<Longrightarrow> editable (snd (undo app))"
  by (auto simp: editable_def undo_def getLayer_def saveLayer_def deleteLayer_def Let_def
      split: option.splits)

lemma undoStack_undo:
  "editable app \<Longrightarrow> length (undoStack (snd (undo app))) = length (undoStack app) - 1"
  by (auto simp: editable_def undo_def getLayer_def saveLayer_def deleteLayer_def Let_def
      split: option.splits)

text \<open>Restoring a snapshot writes the blob, or deletes the layer for the absence marker.\<close>

lemma restore_blob:
  "db sm \<Longrightarrow> lid \<noteq> [] \<Longrightarrow>
   (case p of Some b \<Rightarrow> saveLayer lid b sm | None \<Rightarrow> deleteLayer lid sm)
     = (Inr (), sm\<lparr>layers_store := (layers_store sm)(lid := p)\<rparr>)"
  by (cases p) (simp_all add: saveLayer_def deleteLayer_def)

lemma undo_step:
  assumes "db (storageManager app)"
    and "frame_at (frames app) (currentFrameIndex app) = Some f"
    and "layers f (activeLayer app) \<noteq> []"
    and "undoStack app = u @ [p]"
  shows "undo app = (None, app\<lparr>redoStack := redoStack app
               @ [layers_store (storageManager app) (layers f (activeLayer app))],
             undoStack := u,
             storageManager := (storageManager app)\<lparr>layers_store :=
               (layers_store (storageManager app))(layers f (activeLayer app) := p)\<rparr>\<rparr>)"
  using assms by (simp add: undo_def getLayer_def Let_def restore_blob)

lemma redo_step:
  assumes "db (storageManager app)"
    and "frame_at (frames app) (currentFrameIndex app) = Some f"
    and "layers f (activeLayer app) \<noteq> []"
    and "redoStack app = r @ [p]"
  shows "redo app = (None, app\<lparr>undoStack := undoStack app
               @ [layers_store (storageManager app) (layers f (activeLayer app))],
             redoStack := r,
             storageManager := (storageManager app)\<lparr>layers_store :=
               (layers_store (storageManager app))(layers f (activeLayer app) := p)\<rparr>\<rparr>)"
  using assms by (simp add: redo_def getLayer_def Let_def restore_blob)

text \<open>A redo right after an undo gives back the whole state.\<close>

lemma redo_undo:
  assumes "editable app" and "undoStack app \<noteq> []"
  shows "snd (redo (snd (undo app))) = app"
proof -
  from assms(1) obtain f where f: "frame_at (frames app) (currentFrameIndex app) = Some f"
    and lid: "layers f (activeLayer app) \<noteq> []" and d: "db (storageManager app)"
    by (auto simp: editable_def split: option.splits)
  from assms(2) obtain u p where u: "undoStack app = u @ [p]"
    by (metis append_butlast_last_id)
  let ?app1 = "snd (undo app)"
  have a1: "undo app = (None, app\<lparr>redoStack := redoStack app
               @ [layers_store (storageManager app) (layers f (activeLayer app))],
             undoStack := u,
             storageManager := (storageManager app)\<lparr>layers_store :=
               (layers_store (storageManager app))(layers f (activeLayer app) := p)\<rparr>\<rparr>)"
    by (rule undo_step [OF d f lid u])
  have "redo ?app1 = (None, ?app1\<lparr>undoStack := undoStack ?app1
               @ [layers_store (storageManager ?app1) (layers f (activeLayer ?app1))],
             redoStack := redoStack app,
             storageManager := (storageManager ?app1)\<lparr>layers_store :=
               (layers_store (storageManager ?app1))(layers f (activeLayer ?app1) :=
                  layers_store (storageManager app) (layers f (activeLayer app)))\<rparr>\<rparr>)"
    by (rule redo_step) (simp_all add: a1 d f lid)
  then show ?thesis
    by (simp add: a1 u)
qed

lemma undo_redo_times:
  "editable app \<Longrightarrow> k \<le> length (undoStack app) \<Longrightarrow> redo_times k (undo_times k app) = app"
proof (induction k arbitrary: app)
  case 0
  then show ?case by (simp add: undo_times_def redo_times_def)
next
  case (Suc k)
  let ?a = "snd (undo app)"
  have ne: "undoStack app \<noteq> []" using Suc.prems(2) by auto
  have "editable ?a" by (rule editable_undo [OF Suc.prems(1)])
  moreover have "k \<le> length (undoStack ?a)"
    using Suc.prems by (simp add: undoStack_undo)
  ultimately have ih: "redo_times k (undo_times k ?a) = ?a" by (rule Suc.IH)
  have "undo_times (Suc k) app = undo_times k ?a"
    by (simp only: undo_times_def funpow_Suc_right o_apply)
  then have "redo_times (Suc k) (undo_times (Suc k) app)
      = snd (redo (redo_times k (undo_times k ?a)))"
    by (simp add: redo_times_def)
  then show ?case by (simp add: ih redo_undo [OF Suc.prems(1) ne])
qed

text \<open>
  Claim C2. After a sequence of k mutations (k at most 20, the depth of the history) of
  the active layer of the current frame, k undos followed by k redos leave the blob
  stored for that layer equal to the one stored right after the k-th mutation. The
  layer is editable: the store is initialised, playback is stopped, the frame exists and
  its layer id is not empty.
\<close>

theorem undo_redo_symmetry:
  assumes "editable app" and "length bs \<le> 20"
  shows "active_blob (redo_times (length bs) (undo_times (length bs) (mutations bs app)))
           = active_blob (mutations bs app)"
proof -
  have "editable (mutations bs app)" by (rule editable_mutations [OF assms(1)])
  moreover have "length bs \<le> length (undoStack (mutations bs app))"
    by (rule undoStack_mutations [OF assms])
  ultimately have
    "redo_times (length bs) (undo_times (length bs) (mutations bs app)) = mutations bs app"
    by (rule undo_redo_times)
  then show ?thesis by simp
qed

theorem undo_redo_symmetry_witness:
  "editable app2 \<and> length edits3 \<le> 20 \<and>
   active_blob (mutations edits3 app2) = Some [9] \<and>
   active_blob (undo_times (length edits3) (mutations edits3 app2)) = Some [2] \<and>
   active_blob (redo_times (length edits3) (undo_times (length edits3) (mutations edits3 app2)))
     = Some [9]"
proof -
  have e: "editable app2"
    by (simp add: editable_def app2_def store2_def frame_at_def frameA_def createNewFrame_def)
  have l: "length edits3 \<le> 20" by (simp add: edits3_def)
  have m: "active_blob (mutations edits3 app2) = Some [9]"
    by (simp add: mutations_def mutation_def handlePointerDown_def handlePointerUp_def
        active_blob_def app2_def store2_def frame_at_def frameA_def createNewFrame_def
        getLayer_def saveLayer_def edits3_def)
  have u: "active_blob (undo_times (length edits3) (mutations edits3 app2)) = Some [2]"
    by (simp add: mutations_def mutation_def handlePointerDown_def handlePointerUp_def
        active_blob_def app2_def store2_def frame_at_def frameA_def createNewFrame_def
        getLayer_def saveLayer_def deleteLayer_def undo_times_def undo_def Let_def edits3_def)
  show ?thesis
    using undo_redo_symmetry [OF e l] e l m u by simp
qed

section \<open>Playback\<close>

subsection \<open>Rounding to double precision\<close>

lemma binade_eq:
  assumes lo: "2 powi k \<le> \<bar>x\<bar>" and hi: "\<bar>x\<bar> < 2 powi (k + 1)"
  shows "binade x = k"
proof -
  have "(0::real) < 2 powi k" by simp
  with lo have pos: "0 < \<bar>x\<bar>" by linarith
  have p: "(2::real) powr real_of_int j = 2 powi j" for j
    by (rule powr_real_of_int') simp_all
  have "real_of_int k \<le> log 2 \<bar>x\<bar>"
    using lo pos by (simp add: le_log_iff p)
  moreover have "log 2 \<bar>x\<bar> < real_of_int k + 1"
  proof -
    have "\<bar>x\<bar> < 2 powr real_of_int (k + 1)" using hi by (simp only: p)
    then have "log 2 \<bar>x\<bar> < real_of_int (k + 1)"
      using pos by (simp add: log_less_iff)
    then show ?thesis by simp
  qed
  ultimately show ?thesis
    unfolding binade_def by (rule floor_unique)
qed






subsection \<open>One tick\<close>





lemma ddiv_Fin: "b \<noteq> 0 \<Longrightarrow> ddiv (Fin a) (Fin b) = to_double (a / b)"
  by (simp add: ddiv_def rounded_def)


lemma to_double_at:
  assumes "2 powi k \<le> \<bar>x\<bar>" and "\<bar>x\<bar> < 2 powi (k + 1)"
  shows "to_double x =
     (let u = 2 powi (max k (- 1022) - 52);
          r = u * of_int (rne (x / u))
      in if 2 ^ 1024 \<le> r then PInf else if r \<le> - (2 ^ 1024) then NInf else Fin r)"
proof -
  have "binade x = k" using assms by (rule binade_eq)
  moreover have "x \<noteq> 0"
  proof
    assume "x = 0"
    then have "(2::real) powi k \<le> 0" using assms(1) by simp
    moreover have "(0::real) < 2 powi k" by simp
    ultimately show False by linarith
  qed
  ultimately show ?thesis by (simp add: to_double_def)
qed








text \<open>\<open>interval15\<close> is the frame interval \<open>setFPS\<close> computes for 15 frames per second.\<close>

lemma setFPS_15: "frameInterval (setFPS (Fin 15) s) = Fin interval15"
proof -
  have "to_double (1000 / 15) = Fin interval15"
    by (subst to_double_at [of 6]) (simp_all add: rne_def interval15_def)
  then show ?thesis by (simp add: setFPS_def ddiv_Fin)
qed







section \<open>Flood fill\<close>

subsection \<open>Reading and painting pixels\<close>

lemma length_wr [simp]: "length (wr d i v) = length d"
  by (simp add: wr_def)

lemma rd_wr:
  "rd (wr d i v) j = (if j = i \<and> 0 \<le> i \<and> i < int (length d) then Some v else rd d j)"
  by (auto simp: rd_def wr_def nth_list_update)

lemma length_paint [simp]: "length (paint d i rgb) = length d"
  by (cases rgb) (simp add: paint_def)

lemma getPixel_paint_same:
  assumes "0 \<le> i" and "i + 3 < int (length d)" and "i = (y * int w + x) * 4"
  shows "getPixel (paint d i rgb) w x y = opaque rgb"
  using assms by (cases rgb) (simp add: getPixel_def paint_def opaque_def rd_wr Let_def)

lemma rd_paint_other:
  assumes "k < i \<or> i + 3 < k"
  shows "rd (paint d i rgb) k = rd d k"
proof -
  obtain r g b where rgb: "rgb = (r, g, b)" by (cases rgb)
  from assms have "k \<noteq> i" "k \<noteq> i + 1" "k \<noteq> i + 2" "k \<noteq> i + 3" by linarith+
  then show ?thesis by (simp add: rgb paint_def rd_wr)
qed

lemma getPixel_paint_other:
  assumes "i + 4 \<le> j \<or> j + 4 \<le> i" and "j = (y * int w + x) * 4"
  shows "getPixel (paint d i rgb) w x y = getPixel d w x y"
proof -
  have "j < i \<or> i + 3 < j" "j + 1 < i \<or> i + 3 < j + 1" "j + 2 < i \<or> i + 3 < j + 2"
    "j + 3 < i \<or> i + 3 < j + 3"
    using assms(1) by linarith+
  then have "rd (paint d i rgb) j = rd d j" "rd (paint d i rgb) (j + 1) = rd d (j + 1)"
    "rd (paint d i rgb) (j + 2) = rd d (j + 2)" "rd (paint d i rgb) (j + 3) = rd d (j + 3)"
    by (simp_all only: rd_paint_other)
  then show ?thesis
    unfolding getPixel_def Let_def assms(2) [symmetric] by simp
qed

lemma linear_index_bounds:
  assumes "0 \<le> x" "x < int w" "0 \<le> y" "y < int h"
  shows "0 \<le> y * int w + x" and "y * int w + x < int w * int h"
proof -
  show "0 \<le> y * int w + x" using assms by simp
  have "y + 1 \<le> int h" using assms by simp
  then have "(y + 1) * int w \<le> int h * int w"
    by (rule mult_right_mono) simp
  then show "y * int w + x < int w * int h"
    using assms(2) by (simp add: algebra_simps)
qed

lemma linear_index_inj:
  assumes "0 \<le> x" "x < int w" "0 \<le> x'" "x' < int w"
    and "y * int w + x = y' * int w + x'"
  shows "x = x' \<and> y = y'"
proof -
  have "(y * int w + x) mod int w = x" "(y' * int w + x') mod int w = x'"
    using assms(1-4) by simp_all
  then have x: "x = x'" using assms(5) by simp
  have "(y * int w + x) div int w = y" "(y' * int w + x') div int w = y'"
    using assms(1-4) by simp_all
  then have "y = y'" using assms(5) by simp
  with x show ?thesis by simp
qed

lemma pixel_index_range:
  assumes "in_canvas w h p"
  shows "0 \<le> (snd p * int w + fst p) * 4"
    and "(snd p * int w + fst p) * 4 + 3 < int (4 * w * h)"
proof -
  from assms have b: "0 \<le> fst p" "fst p < int w" "0 \<le> snd p" "snd p < int h"
    by (simp_all add: in_canvas_def)
  from linear_index_bounds [OF b]
  show "0 \<le> (snd p * int w + fst p) * 4"
    and "(snd p * int w + fst p) * 4 + 3 < int (4 * w * h)"
    by simp_all
qed

lemma pixel_index_apart:
  assumes "in_canvas w h p" and "in_canvas w h q" and "p \<noteq> q"
  shows "(snd p * int w + fst p) * 4 + 4 \<le> (snd q * int w + fst q) * 4
       \<or> (snd q * int w + fst q) * 4 + 4 \<le> (snd p * int w + fst p) * 4"
proof -
  from assms have "snd p * int w + fst p \<noteq> snd q * int w + fst q"
    using linear_index_inj [of "fst p" w "fst q" "snd p" "snd q"]
    by (auto simp: in_canvas_def prod_eq_iff)
  then show ?thesis by presburger
qed

lemma region_in_canvas: "p \<in> region img s \<Longrightarrow> in_canvas (width img) (height img) p"
  by (induction rule: region.induct) simp_all

lemma region_colour: "p \<in> region img s \<Longrightarrow> pixel img p = pixel img s"
  by (induction rule: region.induct) simp_all

lemma card_canvas: "card {p. in_canvas w h p} = w * h"
proof -
  have "{p. in_canvas w h p} = {0..<int w} \<times> {0..<int h}"
    by (auto simp: in_canvas_def)
  then show ?thesis by (simp add: card_cartesian_product)
qed

lemma finite_canvas: "finite {p. in_canvas w h p}"
proof -
  have "{p. in_canvas w h p} = {0..<int w} \<times> {0..<int h}"
    by (auto simp: in_canvas_def)
  then show ?thesis by simp
qed

lemma painted_bound:
  assumes "distinct ps" and "set ps \<subseteq> region img s"
  shows "length ps \<le> width img * height img"
proof -
  have "set ps \<subseteq> {p. in_canvas (width img) (height img) p}"
    using assms(2) region_in_canvas by blast
  then have "card (set ps) \<le> card {p. in_canvas (width img) (height img) p}"
    by (rule card_mono [OF finite_canvas])
  then show ?thesis using assms(1) by (simp add: distinct_card card_canvas)
qed

subsection \<open>The invariant is kept by every iteration\<close>

lemma colorsMatch_eq: "colorsMatch a b = (a = b)"
  by (cases a, cases b) auto

lemma fill_inv_init: "fill_inv img s rgb (data img) [s] []"
  by (simp add: fill_inv_def pixel_def)

lemma fill_inv_stack_region:
  assumes inv: "fill_inv img s rgb d stack ps" and q: "q \<in> set stack"
    and c: "in_canvas (width img) (height img) q" and col: "pixel img q = pixel img s"
  shows "q \<in> region img s"
proof -
  from inv q have "q = s \<or> (\<exists>p\<in>set ps. q \<in> set (neighbours p))"
    by (simp add: fill_inv_def)
  then show ?thesis
  proof
    assume "q = s"
    with c show ?thesis by (simp add: region.seed)
  next
    assume "\<exists>p\<in>set ps. q \<in> set (neighbours p)"
    then obtain p where p: "p \<in> set ps" and n: "q \<in> set (neighbours p)" by blast
    from inv p have "p \<in> region img s" by (auto simp: fill_inv_def)
    then show ?thesis using n c col by (rule region.step)
  qed
qed

lemma fill_inv_skip_outside:
  assumes inv: "fill_inv img s rgb d (q # rest) ps"
    and out: "\<not> in_canvas (width img) (height img) q"
    and sc: "in_canvas (width img) (height img) s"
  shows "fill_inv img s rgb d rest ps"
proof -
  have qs: "q \<noteq> s" using out sc by auto
  have qr: "q \<notin> region img s" using out region_in_canvas by blast
  show ?thesis
    using inv qs qr unfolding fill_inv_def by (simp; blast)
qed

lemma fill_inv_skip_mismatch:
  assumes inv: "fill_inv img s rgb d (q # rest) ps"
    and c: "in_canvas (width img) (height img) q"
    and mis: "getPixel d (width img) (fst q) (snd q) \<noteq> pixel img s"
  shows "fill_inv img s rgb d rest ps"
proof -
  from inv c have px: "getPixel d (width img) (fst q) (snd q)
      = (if q \<in> set ps then opaque rgb else pixel img q)"
    by (simp add: fill_inv_def)
  have a: "q \<in> region img s \<Longrightarrow> q \<in> set ps"
    using px mis region_colour [of q img s] by (auto split: if_splits)
  have "s \<in> region img s \<or> s \<noteq> q"
    using c by (auto intro: region.seed)
  then have b: "q = s \<Longrightarrow> q \<in> set ps" using a by blast
  show ?thesis
    using inv a b unfolding fill_inv_def by (simp; blast)
qed

lemma fill_inv_paint:
  assumes inv: "fill_inv img s rgb d (q # rest) ps"
    and wf: "well_formed img"
    and c: "in_canvas (width img) (height img) q"
    and match: "getPixel d (width img) (fst q) (snd q) = pixel img s"
    and ne: "pixel img s \<noteq> opaque rgb"
  shows "fill_inv img s rgb (paint d ((snd q * int (width img) + fst q) * 4) rgb)
           (neighbours q @ rest) (ps @ [q])"
proof -
  let ?w = "width img" and ?h = "height img"
  let ?i = "(snd q * int ?w + fst q) * 4"
  from inv have len: "length d = 4 * ?w * ?h"
    using wf by (simp add: fill_inv_def well_formed_def)
  from inv c have px: "getPixel d ?w (fst q) (snd q)
      = (if q \<in> set ps then opaque rgb else pixel img q)"
    by (simp add: fill_inv_def)
  have fresh: "q \<notin> set ps" using px match ne by (auto split: if_splits)
  then have col: "pixel img q = pixel img s" using px match by simp
  have qr: "q \<in> region img s"
    by (rule fill_inv_stack_region [OF inv _ c col]) simp
  have pix: "getPixel (paint d ?i rgb) ?w (fst p) (snd p)
      = (if p \<in> set (ps @ [q]) then opaque rgb else pixel img p)"
    if pc: "in_canvas ?w ?h p" for p
  proof (cases "p = q")
    case True
    have "getPixel (paint d ?i rgb) ?w (fst q) (snd q) = opaque rgb"
      using pixel_index_range [OF c] by (intro getPixel_paint_same) (simp_all add: len)
    with True show ?thesis by simp
  next
    case False
    have "getPixel (paint d ?i rgb) ?w (fst p) (snd p) = getPixel d ?w (fst p) (snd p)"
      using pixel_index_apart [OF c pc] False by (intro getPixel_paint_other) auto
    moreover from inv pc have "getPixel d ?w (fst p) (snd p)
        = (if p \<in> set ps then opaque rgb else pixel img p)"
      by (simp add: fill_inv_def)
    ultimately show ?thesis using False by simp
  qed
  have l: "length (paint d ?i rgb) = length (data img)"
    using inv by (simp add: fill_inv_def)
  have sub: "set (ps @ [q]) \<subseteq> region img s" and dist: "distinct (ps @ [q])"
    using inv qr fresh by (auto simp: fill_inv_def)
  have st: "\<forall>x\<in>set (neighbours q @ rest). x = s \<or> (\<exists>p\<in>set (ps @ [q]). x \<in> set (neighbours p))"
  proof
    fix x assume "x \<in> set (neighbours q @ rest)"
    then consider "x \<in> set (neighbours q)" | "x \<in> set rest" by auto
    then show "x = s \<or> (\<exists>p\<in>set (ps @ [q]). x \<in> set (neighbours p))"
    proof cases
      case 1
      then show ?thesis by auto
    next
      case 2
      with inv have "x = s \<or> (\<exists>p\<in>set ps. x \<in> set (neighbours p))"
        by (simp add: fill_inv_def)
      then show ?thesis by auto
    qed
  qed
  have sd: "s \<in> set (ps @ [q]) \<or> s \<in> set (neighbours q @ rest)"
    using inv by (auto simp: fill_inv_def)
  have cl: "\<forall>p\<in>set (ps @ [q]). \<forall>x\<in>set (neighbours p).
      x \<in> region img s \<longrightarrow> x \<in> set (ps @ [q]) \<or> x \<in> set (neighbours q @ rest)"
  proof (intro ballI impI)
    fix p x assume p: "p \<in> set (ps @ [q])" and x: "x \<in> set (neighbours p)"
      and xr: "x \<in> region img s"
    show "x \<in> set (ps @ [q]) \<or> x \<in> set (neighbours q @ rest)"
    proof (cases "p = q")
      case True
      with x show ?thesis by simp
    next
      case False
      with p have "p \<in> set ps" by simp
      with inv x xr have "x \<in> set ps \<or> x \<in> set (q # rest)"
        unfolding fill_inv_def by blast
      then show ?thesis by auto
    qed
  qed
  show ?thesis
    unfolding fill_inv_def using l pix sub dist st sd cl by blast
qed

subsection \<open>The loop returns\<close>

lemma flood_trace_Nil: "flood_trace w h T rgb d [] ps = Some (d, ps)"
  by (subst flood_trace.simps) simp

lemma flood_loop_Nil: "flood_loop w h T rgb d [] = Some d"
  by (subst flood_loop.simps) simp

lemma flood_trace_skip:
  assumes "\<not> in_canvas w h q \<or> getPixel d w (fst q) (snd q) \<noteq> T"
  shows "flood_trace w h T rgb d (q # rest) ps = flood_trace w h T rgb d rest ps"
  using assms
  by (subst flood_trace.simps) (auto simp: in_canvas_def colorsMatch_eq split: prod.splits)

lemma flood_loop_skip:
  assumes "\<not> in_canvas w h q \<or> getPixel d w (fst q) (snd q) \<noteq> T"
  shows "flood_loop w h T rgb d (q # rest) = flood_loop w h T rgb d rest"
  using assms
  by (subst flood_loop.simps) (auto simp: in_canvas_def colorsMatch_eq split: prod.splits)

lemma flood_trace_paint:
  assumes "in_canvas w h q" and "getPixel d w (fst q) (snd q) = T"
  shows "flood_trace w h T rgb d (q # rest) ps
     = flood_trace w h T rgb (paint d ((snd q * int w + fst q) * 4) rgb)
         (neighbours q @ rest) (ps @ [q])"
proof -
  obtain x y where q: "q = (x, y)" by (cases q)
  have b: "\<not> (x < 0 \<or> int w \<le> x \<or> y < 0 \<or> int h \<le> y)"
    using assms(1) by (simp add: q in_canvas_def)
  have m: "colorsMatch (getPixel d w x y) T"
    using assms(2) by (simp add: q colorsMatch_eq)
  have "flood_trace w h T rgb d ((x, y) # rest) ps
     = flood_trace w h T rgb (paint d ((y * int w + x) * 4) rgb)
         ((x, y - 1) # (x, y + 1) # (x - 1, y) # (x + 1, y) # rest) (ps @ [(x, y)])"
    by (subst flood_trace.simps) (simp only: list.case prod.case b m if_False not_True_eq_False not_not)
  then show ?thesis by (simp add: q neighbours_def)
qed

lemma flood_loop_paint:
  assumes "in_canvas w h q" and "getPixel d w (fst q) (snd q) = T"
  shows "flood_loop w h T rgb d (q # rest)
     = flood_loop w h T rgb (paint d ((snd q * int w + fst q) * 4) rgb) (neighbours q @ rest)"
proof -
  obtain x y where q: "q = (x, y)" by (cases q)
  have b: "\<not> (x < 0 \<or> int w \<le> x \<or> y < 0 \<or> int h \<le> y)"
    using assms(1) by (simp add: q in_canvas_def)
  have m: "colorsMatch (getPixel d w x y) T"
    using assms(2) by (simp add: q colorsMatch_eq)
  have "flood_loop w h T rgb d ((x, y) # rest)
     = flood_loop w h T rgb (paint d ((y * int w + x) * 4) rgb)
         ((x, y - 1) # (x, y + 1) # (x - 1, y) # (x + 1, y) # rest)"
    by (subst flood_loop.simps) (simp only: list.case prod.case b m if_False not_True_eq_False not_not)
  then show ?thesis by (simp add: q neighbours_def)
qed

lemma flood_loop_returns:
  assumes wf: "well_formed img"
    and sc: "in_canvas (width img) (height img) s"
    and ne: "pixel img s \<noteq> opaque rgb"
  shows "fill_inv img s rgb d stack ps \<Longrightarrow>
     \<exists>d' ps'. flood_trace (width img) (height img) (pixel img s) rgb d stack ps = Some (d', ps')
       \<and> flood_loop (width img) (height img) (pixel img s) rgb d stack = Some d'
       \<and> fill_inv img s rgb d' [] ps'"
proof (induction "width img * height img - length ps" arbitrary: d stack ps rule: less_induct)
  case less
  let ?w = "width img" and ?h = "height img" and ?T = "pixel img s"
  from less.prems show ?case
  proof (induction stack)
    case Nil
    then show ?case by (simp add: flood_trace_Nil flood_loop_Nil)
  next
    case (Cons q rest)
    show ?case
    proof (cases "in_canvas ?w ?h q \<and> getPixel d ?w (fst q) (snd q) = ?T")
      case False
      then have skip: "\<not> in_canvas ?w ?h q \<or> getPixel d ?w (fst q) (snd q) \<noteq> ?T" by blast
      have "fill_inv img s rgb d rest ps"
      proof (cases "in_canvas ?w ?h q")
        case True
        with skip have "getPixel d ?w (fst q) (snd q) \<noteq> ?T" by blast
        with Cons.prems True show ?thesis by (rule fill_inv_skip_mismatch)
      next
        case False
        with Cons.prems show ?thesis using sc by (rule fill_inv_skip_outside)
      qed
      then have "\<exists>d' ps'. flood_trace ?w ?h ?T rgb d rest ps = Some (d', ps')
         \<and> flood_loop ?w ?h ?T rgb d rest = Some d' \<and> fill_inv img s rgb d' [] ps'"
        by (rule Cons.IH)
      then show ?thesis
        by (simp only: flood_trace_skip [OF skip] flood_loop_skip [OF skip])
    next
      case True
      then have c: "in_canvas ?w ?h q" and m: "getPixel d ?w (fst q) (snd q) = ?T"
        by blast+
      let ?d = "paint d ((snd q * int ?w + fst q) * 4) rgb"
      have inv': "fill_inv img s rgb ?d (neighbours q @ rest) (ps @ [q])"
        by (rule fill_inv_paint [OF Cons.prems wf c m ne])
      then have "distinct (ps @ [q])" and "set (ps @ [q]) \<subseteq> region img s"
        by (simp_all add: fill_inv_def)
      then have "length (ps @ [q]) \<le> ?w * ?h" by (rule painted_bound)
      then have "?w * ?h - length (ps @ [q]) < ?w * ?h - length ps" by simp
      from less.hyps [OF this inv']
      show ?thesis
        by (simp only: flood_trace_paint [OF c m] flood_loop_paint [OF c m])
    qed
  qed
qed

lemma fill_inv_final:
  assumes "fill_inv img s rgb d [] ps"
  shows "set ps = region img s"
proof
  show "set ps \<subseteq> region img s" using assms by (simp add: fill_inv_def)
  show "region img s \<subseteq> set ps"
  proof
    fix p assume "p \<in> region img s"
    then show "p \<in> set ps"
    proof (induction rule: region.induct)
      case seed
      then show ?case using assms by (simp add: fill_inv_def)
    next
      case (step p q)
      then have "q \<in> region img s" by (auto intro: region.step)
      with assms step.IH step.hyps(2) show ?case
        unfolding fill_inv_def by auto
    qed
  qed
qed

subsection \<open>The fill\<close>

lemma floodFill_in_region:
  assumes wf: "well_formed img"
    and sc: "in_canvas (width img) (height img) (sx, sy)"
    and hex: "hexToRgb fillColor = Some rgb"
    and ne: "pixel img (sx, sy) \<noteq> opaque rgb"
  shows "\<exists>d ps. floodFill sx sy fillColor img = Some (img\<lparr>data := d\<rparr>)
      \<and> floodFill_painted sx sy fillColor img = Some ps
      \<and> fill_inv img (sx, sy) rgb d [] ps"
proof -
  from flood_loop_returns [OF wf sc ne fill_inv_init]
  obtain d ps where
    t: "flood_trace (width img) (height img) (pixel img (sx, sy)) rgb (data img) [(sx, sy)] []
          = Some (d, ps)"
    and l: "flood_loop (width img) (height img) (pixel img (sx, sy)) rgb (data img) [(sx, sy)]
          = Some d"
    and inv: "fill_inv img (sx, sy) rgb d [] ps"
    by blast
  have tc: "getPixel (data img) (width img) sx sy = pixel img (sx, sy)"
    by (simp add: pixel_def)
  have "floodFill sx sy fillColor img = Some (img\<lparr>data := d\<rparr>)"
    using ne by (simp add: floodFill_def hex tc colorsMatch_eq l)
  moreover have "floodFill_painted sx sy fillColor img = Some ps"
    using ne by (simp add: floodFill_painted_def hex tc colorsMatch_eq t)
  ultimately show ?thesis using inv by blast
qed

text \<open>
  Claim C1. On a well-formed image, for a seed inside the canvas whose colour differs
  from the opaque fill colour, \<open>floodFill\<close> returns; it paints every pixel of the region
  of the seed (the pixels 4-connected to it through pixels of the seed's colour) with
  the opaque fill colour, leaves every other pixel of the canvas as it was, and
  overwrites each pixel of the region exactly once: the list of its writes has no
  repetition and holds exactly the pixels of the region.
\<close>

theorem floodFill_region:
  assumes wf: "well_formed img"
    and sc: "in_canvas (width img) (height img) (sx, sy)"
    and hex: "hexToRgb fillColor = Some rgb"
    and ne: "pixel img (sx, sy) \<noteq> opaque rgb"
  shows "\<exists>img' ps. floodFill sx sy fillColor img = Some img'
      \<and> floodFill_painted sx sy fillColor img = Some ps
      \<and> width img' = width img \<and> height img' = height img \<and> well_formed img'
      \<and> (\<forall>p. in_canvas (width img) (height img) p \<longrightarrow>
            pixel img' p = (if p \<in> region img (sx, sy) then opaque rgb else pixel img p))
      \<and> distinct ps \<and> set ps = region img (sx, sy)"
proof -
  from floodFill_in_region [OF assms]
  obtain d ps where f: "floodFill sx sy fillColor img = Some (img\<lparr>data := d\<rparr>)"
    and p: "floodFill_painted sx sy fillColor img = Some ps"
    and inv: "fill_inv img (sx, sy) rgb d [] ps"
    by blast
  have r: "set ps = region img (sx, sy)" by (rule fill_inv_final [OF inv])
  have "well_formed (img\<lparr>data := d\<rparr>)"
    using inv wf by (simp add: fill_inv_def well_formed_def)
  moreover have "\<forall>p. in_canvas (width img) (height img) p \<longrightarrow>
      pixel (img\<lparr>data := d\<rparr>) p = (if p \<in> region img (sx, sy) then opaque rgb else pixel img p)"
    using inv by (simp add: fill_inv_def pixel_def r)
  moreover have "distinct ps" using inv by (simp add: fill_inv_def)
  ultimately show ?thesis using f p r by auto
qed

lemma hex_green: "hexToRgb ''#00ff00'' = Some (0, 255, 0)"
  by (simp add: hexToRgb_def hex_pair_def hex_digit_def)

lemma fill_img1: "floodFill 0 0 ''#00ff00'' img1 = Some img1_filled"
  by (simp add: floodFill_def img1_def img1_filled_def hex_green getPixel_def rd_def
      opaque_def flood_loop.simps paint_def wr_def)

lemma painted_img1: "floodFill_painted 0 0 ''#00ff00'' img1 = Some [(0, 0), (1, 0), (1, 1)]"
  by (simp add: floodFill_painted_def img1_def hex_green getPixel_def rd_def
      opaque_def flood_trace.simps paint_def wr_def)

theorem floodFill_region_witness:
  "well_formed img1 \<and> in_canvas (width img1) (height img1) (0, 0) \<and>
   hexToRgb ''#00ff00'' = Some (0, 255, 0) \<and> pixel img1 (0, 0) \<noteq> opaque (0, 255, 0) \<and>
   floodFill 0 0 ''#00ff00'' img1 = Some img1_filled \<and>
   floodFill_painted 0 0 ''#00ff00'' img1 = Some [(0, 0), (1, 0), (1, 1)] \<and>
   region img1 (0, 0) = {(0, 0), (1, 0), (1, 1)} \<and>
   pixel img1_filled (1, 1) = opaque (0, 255, 0) \<and>
   pixel img1_filled (0, 1) = pixel img1 (0, 1)"
proof -
  have h: "well_formed img1" "in_canvas (width img1) (height img1) (0, 0)"
    "hexToRgb ''#00ff00'' = Some (0, 255, 0)" "pixel img1 (0, 0) \<noteq> opaque (0, 255, 0)"
    by (simp_all add: well_formed_def img1_def in_canvas_def hex_green pixel_def getPixel_def
        rd_def opaque_def)
  from floodFill_region [OF h] fill_img1 painted_img1
  have r: "region img1 (0, 0) = {(0, 0), (1, 0), (1, 1)}"
    and px: "\<forall>p. in_canvas (width img1) (height img1) p \<longrightarrow>
            pixel img1_filled p
              = (if p \<in> region img1 (0, 0) then opaque (0, 255, 0) else pixel img1 p)"
    by auto
  have "in_canvas (width img1) (height img1) (1, 1)" "in_canvas (width img1) (height img1) (0, 1)"
    by (simp_all add: img1_def in_canvas_def)
  with px have "pixel img1_filled (1, 1) = opaque (0, 255, 0)"
    "pixel img1_filled (0, 1) = pixel img1 (0, 1)"
    by (simp_all add: r)
  with h r fill_img1 painted_img1 show ?thesis by simp
qed

text \<open>
  Claim C7. For a well-formed image, any seed and a parseable fill colour, \<open>floodFill\<close>
  returns an image on which the same fill returns that image again; when the seed pixel
  already has the opaque fill colour the image is returned unchanged.
\<close>

theorem floodFill_idempotent:
  assumes wf: "well_formed img" and hex: "hexToRgb fillColor = Some rgb"
  shows "\<exists>img'. floodFill sx sy fillColor img = Some img'
      \<and> floodFill sx sy fillColor img' = Some img'
      \<and> (pixel img (sx, sy) = opaque rgb \<longrightarrow> img' = img)"
proof (cases "pixel img (sx, sy) = opaque rgb")
  case True
  then have "floodFill sx sy fillColor img = Some img"
    by (simp add: floodFill_def hex pixel_def colorsMatch_eq)
  then show ?thesis by simp
next
  case ne: False
  show ?thesis
  proof (cases "in_canvas (width img) (height img) (sx, sy)")
    case False
    then have "flood_loop (width img) (height img) (pixel img (sx, sy)) rgb (data img) [(sx, sy)]
        = Some (data img)"
      by (simp add: flood_loop_skip flood_loop_Nil)
    then have "floodFill sx sy fillColor img = Some img"
      using ne by (simp add: floodFill_def hex pixel_def colorsMatch_eq)
    then show ?thesis using ne by simp
  next
    case True
    from floodFill_in_region [OF wf True hex ne]
    obtain d ps where f: "floodFill sx sy fillColor img = Some (img\<lparr>data := d\<rparr>)"
      and inv: "fill_inv img (sx, sy) rgb d [] ps"
      by blast
    have "(sx, sy) \<in> set ps" using inv by (simp add: fill_inv_def)
    with inv True have "getPixel d (width img) sx sy = opaque rgb"
      unfolding fill_inv_def by fastforce
    then have "floodFill sx sy fillColor (img\<lparr>data := d\<rparr>) = Some (img\<lparr>data := d\<rparr>)"
      by (simp add: floodFill_def hex colorsMatch_eq)
    with f show ?thesis using ne by simp
  qed
qed

theorem floodFill_idempotent_witness:
  "well_formed img1 \<and> well_formed img1_filled \<and> hexToRgb ''#00ff00'' = Some (0, 255, 0) \<and>
   floodFill 0 0 ''#00ff00'' img1 = Some img1_filled \<and>
   pixel img1_filled (0, 0) = opaque (0, 255, 0) \<and>
   floodFill 0 0 ''#00ff00'' img1_filled = Some img1_filled"
proof -
  have h: "well_formed img1_filled" "hexToRgb ''#00ff00'' = Some (0, 255, 0)"
    and w: "well_formed img1"
    by (simp_all add: well_formed_def img1_def img1_filled_def hex_green)
  have p: "pixel img1_filled (0, 0) = opaque (0, 255, 0)"
    by (simp add: img1_filled_def pixel_def getPixel_def rd_def opaque_def)
  from floodFill_idempotent [OF h, of 0 0] p
  have "floodFill 0 0 ''#00ff00'' img1_filled = Some img1_filled" by auto
  with h w p fill_img1 show ?thesis by simp
qed

section \<open>Strokes\<close>

subsection \<open>One stroke for every spline\<close>

lemma drawn_set_lineWidth [simp]: "drawn (set_lineWidth v c) = drawn c"
  by (simp add: set_lineWidth_def split: jsnum.splits)

lemma drawn_moveTo [simp]: "drawn (moveTo a b c) = drawn c"
  by (simp add: moveTo_def split: jsnum.splits)

lemma drawn_lineTo [simp]: "drawn (lineTo a b c) = drawn c"
  by (simp add: lineTo_def split: jsnum.splits)

lemma drawn_spline_step [simp]: "drawn (spline_step p0 p1 p2 p3 ts settings i c) = drawn c"
  by (simp add: spline_step_def Let_def split: prod.splits)

lemma spline_loop_fold:
  "spline_loop p0 p1 p2 p3 ts settings i c
     = foldl (\<lambda>c j. spline_step p0 p1 p2 p3 ts settings j c) c [i..<Suc steps]"
proof (induction p0 p1 p2 p3 ts settings i c rule: spline_loop.induct)
  case (1 p0 p1 p2 p3 ts settings i c)
  show ?case
  proof (cases "i \<le> steps")
    case False
    then show ?thesis by (subst spline_loop.simps) simp
  next
    case True
    then have "[i..<Suc steps] = i # [i + 1..<Suc steps]"
      by (simp add: upt_conv_Cons)
    then show ?thesis
      using True 1 [OF True] by (subst spline_loop.simps) simp
  qed
qed

lemma drawn_spline_loop: "drawn (spline_loop p0 p1 p2 p3 ts settings i c) = drawn c"
proof -
  have "drawn (foldl (\<lambda>c j. spline_step p0 p1 p2 p3 ts settings j c) c js) = drawn c" for js
    by (induction js arbitrary: c) simp_all
  then show ?thesis by (simp add: spline_loop_fold)
qed

lemma drawSpline_strokes_once:
  assumes "4 \<le> length pts"
  shows "\<exists>c'. drawSpline pts settings c = Inr (stroke c') \<and> drawn c' = drawn c"
proof -
  let ?c = "spline_loop (pts ! (length pts - 4)) (pts ! (length pts - 3))
      (pts ! (length pts - 2)) (pts ! (length pts - 1))
      (knots (pts ! (length pts - 4)) (pts ! (length pts - 3))
         (pts ! (length pts - 2)) (pts ! (length pts - 1)))
      settings 0
      (set_strokeStyle (color settings)
         (set_lineJoin ''round'' (set_lineCap ''round'' (beginPath c))))"
  have "drawSpline pts settings c = Inr (stroke ?c)"
    using assms by (simp add: drawSpline_def Let_def)
  moreover have "drawn ?c = drawn c"
    by (simp add: drawn_spline_loop beginPath_def set_lineCap_def set_lineJoin_def
        set_strokeStyle_def)
  ultimately show ?thesis by blast
qed

lemma all_steps: "[0..<Suc steps] = [0, 1, 2, 3, 4, 5, 6, 7, 8, 9, 10]"
  by (simp add: steps_def upt_rec)

lemma line_knots:
  "knots (sample 0 0 (1 / 2)) (sample 1 0 (1 / 2)) (sample 2 0 1) (sample 3 0 1)
     = (Fin 0, Fin 1, Fin 2, Fin 3)"
  by (simp add: Let_def knots_def getT_def sample_def pow2_def jsub_def)

lemma line_curve:
  "map (curve_point (sample 0 0 (1 / 2)) (sample 1 0 (1 / 2)) (sample 2 0 1) (sample 3 0 1)
     (Fin 0, Fin 1, Fin 2, Fin 3)) [0, 1, 2, 3, 4, 5, 6, 7, 8, 9, 10]
   = map (\<lambda>(a, b). (Fin a, Fin b)) tenths"
  by (simp add: Let_def curve_point_def curve_param_def blend_def sample_def jsub_def
      steps_def tenths_def)

lemma line_widths:
  "map (\<lambda>i. jmul (brush_size brush10) (step_pressure (sample 1 0 (1 / 2)) (sample 2 0 1) i))
     [0, 1, 2, 3, 4, 5, 6, 7, 8, 9, 10]
    = map Fin [5, 11 / 2, 6, 13 / 2, 7, 15 / 2, 8, 17 / 2, 9, 19 / 2, 10]"
  by (simp add: step_pressure_def sample_def jsub_def steps_def brush10_def)

lemma moveTo_Fin: "moveTo (Fin u) (Fin v) c = c\<lparr>path := path c @ [[(u, v)]]\<rparr>"
  by (simp add: moveTo_def)

lemma lineTo_Fin:
  "path c = [ps] \<Longrightarrow> lineTo (Fin u) (Fin v) c = c\<lparr>path := [ps @ [(u, v)]]\<rparr>"
  by (simp add: lineTo_def)

lemma set_lineWidth_Fin:
  "0 < a \<Longrightarrow> set_lineWidth (Fin a) c = c\<lparr>drawing := (drawing c)\<lparr>lineWidth := a\<rparr>\<rparr>"
  by (simp add: set_lineWidth_def)

lemma line_spline:
  assumes "path c = []"
  shows "spline_loop (sample 0 0 (1 / 2)) (sample 1 0 (1 / 2)) (sample 2 0 1) (sample 3 0 1)
     (Fin 0, Fin 1, Fin 2, Fin 3) brush10 0 c
   = c\<lparr>drawing := (drawing c)\<lparr>lineWidth := 10\<rparr>, path := [tenths]\<rparr>"
proof -
  have "spline_loop (sample 0 0 (1 / 2)) (sample 1 0 (1 / 2)) (sample 2 0 1) (sample 3 0 1)
     (Fin 0, Fin 1, Fin 2, Fin 3) brush10 0 c
     = foldl (\<lambda>c j. spline_step (sample 0 0 (1 / 2)) (sample 1 0 (1 / 2)) (sample 2 0 1)
          (sample 3 0 1) (Fin 0, Fin 1, Fin 2, Fin 3) brush10 j c) c
          [0, 1, 2, 3, 4, 5, 6, 7, 8, 9, 10]"
    by (simp only: spline_loop_fold all_steps)
  also have "\<dots> = c\<lparr>drawing := (drawing c)\<lparr>lineWidth := 10\<rparr>, path := [tenths]\<rparr>"
    using line_curve line_widths assms
    by (simp add: spline_step_def Let_def tenths_def moveTo_Fin lineTo_Fin set_lineWidth_Fin)
  finally show ?thesis .
qed

subsection \<open>Coincident samples and the width of the stroke\<close>

lemma jmul_NaN [simp]: "jmul a NaN = NaN"
  by (cases a) simp_all

lemma jadd_NaN [simp]: "jadd a NaN = NaN"
  by (cases a) simp_all

lemma blend_NaN: "blend lo hi t NaN b = NaN" "blend lo hi t a NaN = NaN"
  by (simp_all add: blend_def)

lemma blend_degenerate: "blend (Fin 0) (Fin 0) t (Fin a) (Fin a) = NaN"
  by (cases t) (auto simp: blend_def jsub_def)

lemma getT_coincident:
  assumes "pt_x pA = Fin a" "pt_x pB = Fin a" "pt_y pA = Fin b" "pt_y pB = Fin b"
  shows "getT (Fin 0) pA pB = Fin 0"
  using assms by (simp add: getT_def pow2_def jsub_def)

lemma curve_point_coincident:
  assumes "pt_x p0 = Fin a" "pt_x p1 = Fin a" "pt_y p0 = Fin b" "pt_y p1 = Fin b"
  shows "curve_point p0 p1 p2 p3 (knots p0 p1 p2 p3) i = (NaN, NaN)"
proof -
  obtain t2 t3 where k: "knots p0 p1 p2 p3 = (Fin 0, Fin 0, t2, t3)"
    by (simp add: knots_def Let_def getT_coincident [OF assms])
  show ?thesis
    unfolding k curve_point_def Let_def prod.case assms
    by (simp only: blend_degenerate blend_NaN)
qed

lemma stalled_knots:
  "knots (sample 0 0 (1 / 2)) (sample 0 0 (1 / 2)) (sample 1 0 (1 / 2)) (sample 2 0 (1 / 2))
     = (Fin 0, Fin 0, Fin 1, Fin 2)"
  by (simp add: Let_def knots_def getT_def sample_def pow2_def jsub_def)

lemma stalled_step:
  "spline_step (sample 0 0 (1 / 2)) (sample 0 0 (1 / 2)) (sample 1 0 (1 / 2)) (sample 2 0 (1 / 2))
     (Fin 0, Fin 0, Fin 1, Fin 2) brush10 i c
   = c\<lparr>drawing := (drawing c)\<lparr>lineWidth := 5\<rparr>\<rparr>"
proof -
  have "curve_point (sample 0 0 (1 / 2)) (sample 0 0 (1 / 2)) (sample 1 0 (1 / 2))
      (sample 2 0 (1 / 2)) (Fin 0, Fin 0, Fin 1, Fin 2) i = (NaN, NaN)"
    using curve_point_coincident [of "sample 0 0 (1 / 2)" 0 "sample 0 0 (1 / 2)" 0
        "sample 1 0 (1 / 2)" "sample 2 0 (1 / 2)" i]
    by (simp add: stalled_knots) (simp add: sample_def)
  moreover have "jmul (brush_size brush10)
      (step_pressure (sample 0 0 (1 / 2)) (sample 1 0 (1 / 2)) i) = Fin 5"
    by (simp add: step_pressure_def sample_def jsub_def brush10_def steps_def)
  ultimately show ?thesis
    by (simp add: spline_step_def Let_def moveTo_def lineTo_def set_lineWidth_Fin)
qed

lemma stalled_spline:
  "spline_loop (sample 0 0 (1 / 2)) (sample 0 0 (1 / 2)) (sample 1 0 (1 / 2)) (sample 2 0 (1 / 2))
     (Fin 0, Fin 0, Fin 1, Fin 2) brush10 0 c
   = c\<lparr>drawing := (drawing c)\<lparr>lineWidth := 5\<rparr>\<rparr>"
  by (simp only: spline_loop_fold all_steps stalled_step) simp

text \<open>
  Claim C10. There is a stroke whose four most recent samples have two consecutive
  samples at the same coordinates, here the first two of \<open>stalled_stroke\<close>, for which the
  knots \<open>t0\<close> and \<open>t1\<close> are equal, the divisor \<open>t1 - t0\<close> of the blend is zero (and \<open>0/0\<close> is
  NaN), and both coordinates of every evaluated point of the curve are NaN. Nothing
  guards against it: the engine goes through the loop and strokes an empty path.
\<close>

theorem drawSpline_coincident_samples:
  "pt_x (stalled_stroke ! 0) = pt_x (stalled_stroke ! 1) \<and>
   pt_y (stalled_stroke ! 0) = pt_y (stalled_stroke ! 1) \<and>
   knots (stalled_stroke ! 0) (stalled_stroke ! 1) (stalled_stroke ! 2) (stalled_stroke ! 3)
     = (Fin 0, Fin 0, Fin 1, Fin 2) \<and>
   jsub (Fin 0) (Fin 0) = Fin 0 \<and> jdiv (Fin 0) (Fin 0) = NaN \<and>
   map (curve_point (stalled_stroke ! 0) (stalled_stroke ! 1) (stalled_stroke ! 2)
          (stalled_stroke ! 3) (Fin 0, Fin 0, Fin 1, Fin 2)) [0..<Suc steps]
     = replicate (Suc steps) (NaN, NaN) \<and>
   addPoint (stalled_stroke ! 3) brush10 (engine_after3 stalled_stroke)
     = Inr \<lparr>points = stalled_stroke,
            ctx = ctx0\<lparr>drawn := [\<lparr>stroked_path = [],
                                 stroked_with = \<lparr>lineWidth = 5, lineCap = ''round'',
                                    lineJoin = ''round'', strokeStyle = ''#000000'',
                                    globalCompositeOperation = ''source-over''\<rparr>\<rparr>]\<rparr>\<rparr>"
proof -
  let ?p = "sample 0 0 (1 / 2)" and ?p2 = "sample 1 0 (1 / 2)" and ?p3 = "sample 2 0 (1 / 2)"
  have s: "stalled_stroke ! 0 = ?p" "stalled_stroke ! 1 = ?p" "stalled_stroke ! 2 = ?p2"
    "stalled_stroke ! 3 = ?p3"
    by (simp_all add: stalled_stroke_def)
  have cp: "curve_point ?p ?p ?p2 ?p3 (Fin 0, Fin 0, Fin 1, Fin 2) i = (NaN, NaN)" for i
    using curve_point_coincident [of ?p 0 ?p 0 ?p2 ?p3 i]
    by (simp add: stalled_knots) (simp add: sample_def)
  have m: "map (curve_point ?p ?p ?p2 ?p3 (Fin 0, Fin 0, Fin 1, Fin 2)) [0..<Suc steps]
      = replicate (Suc steps) (NaN, NaN)"
  proof -
    have "map (curve_point ?p ?p ?p2 ?p3 (Fin 0, Fin 0, Fin 1, Fin 2)) [0..<Suc steps]
        = map (\<lambda>i. (NaN, NaN)) [0..<Suc steps]"
      by (rule map_cong) (simp_all only: cp)
    also have "\<dots> = replicate (length [0..<Suc steps]) (NaN, NaN)"
      by (rule map_replicate_const)
    finally show ?thesis by (simp only: length_upt diff_zero)
  qed
  have d: "drawSpline stalled_stroke brush10 (save ctx0)
      = Inr (stroke ((save ctx0)\<lparr>drawing := \<lparr>lineWidth = 5, lineCap = ''round'',
                                    lineJoin = ''round'', strokeStyle = ''#000000'',
                                    globalCompositeOperation = ''source-over''\<rparr>, path := []\<rparr>))"
    by (simp add: drawSpline_def Let_def stalled_stroke_def stalled_knots stalled_spline)
       (simp add: beginPath_def set_lineCap_def set_lineJoin_def set_strokeStyle_def save_def
          ctx0_def brush10_def)
  have a: "addPoint (stalled_stroke ! 3) brush10 (engine_after3 stalled_stroke)
     = Inr \<lparr>points = stalled_stroke,
            ctx = ctx0\<lparr>drawn := [\<lparr>stroked_path = [],
                                 stroked_with = \<lparr>lineWidth = 5, lineCap = ''round'',
                                    lineJoin = ''round'', strokeStyle = ''#000000'',
                                    globalCompositeOperation = ''source-over''\<rparr>\<rparr>]\<rparr>\<rparr>"
  proof -
    have t: "take 3 stalled_stroke @ [stalled_stroke ! 3] = stalled_stroke"
      by (simp add: stalled_stroke_def)
    have l: "\<not> length stalled_stroke < 4" by (simp add: stalled_stroke_def)
    have b: "tool brush10 = Brush" by (simp add: brush10_def)
    show ?thesis
      by (simp add: addPoint_def engine_after3_def Let_def t l b d)
         (simp add: stroke_def restore_def save_def ctx0_def)
  qed
  have c1: "pt_x (stalled_stroke ! 0) = pt_x (stalled_stroke ! 1)"
    "pt_y (stalled_stroke ! 0) = pt_y (stalled_stroke ! 1)"
    by (simp_all only: s)
  have c2: "knots (stalled_stroke ! 0) (stalled_stroke ! 1) (stalled_stroke ! 2)
      (stalled_stroke ! 3) = (Fin 0, Fin 0, Fin 1, Fin 2)"
    by (simp only: s stalled_knots)
  have c3: "jsub (Fin 0) (Fin 0) = Fin 0" "jdiv (Fin 0) (Fin 0) = NaN"
    by (simp_all add: jsub_def)
  have c4: "map (curve_point (stalled_stroke ! 0) (stalled_stroke ! 1) (stalled_stroke ! 2)
          (stalled_stroke ! 3) (Fin 0, Fin 0, Fin 1, Fin 2)) [0..<Suc steps]
     = replicate (Suc steps) (NaN, NaN)"
    by (simp only: s m)
  from c1 c2 c3 c4 a show ?thesis by blast
qed

text \<open>
  Claim C6 asks for every one of the 10 sub-segments between \<open>p1\<close> and \<open>p2\<close> to be drawn as
  its own segment, with the width brush size times the pressure interpolated at that
  sub-segment. The engine assigns that width at every step, but adds all eleven points
  to one path and calls \<open>stroke()\<close> once, after the loop: the whole path is stroked with
  the width assigned last. For the fourth sample of \<open>line_stroke\<close> (brush size 10,
  pressure 0.5 at \<open>p1\<close> and 1 at \<open>p2\<close>) one path of ten segments is stroked, with width 10,
  although the pressures interpolated at steps 0, 1, 9 and 10 are 0.5, 0.55, 0.95 and 1.
\<close>

theorem drawSpline_one_width:
  "addPoint (line_stroke ! 3) brush10 (engine_after3 line_stroke)
     = Inr \<lparr>points = line_stroke,
            ctx = ctx0\<lparr>path := [tenths],
                      drawn := [\<lparr>stroked_path = [tenths],
                                 stroked_with = \<lparr>lineWidth = 10, lineCap = ''round'',
                                    lineJoin = ''round'', strokeStyle = ''#000000'',
                                    globalCompositeOperation = ''source-over''\<rparr>\<rparr>]\<rparr>\<rparr>
   \<and> map (step_pressure (line_stroke ! 1) (line_stroke ! 2)) [0, 1, 9, 10]
       = [Fin (1 / 2), Fin (11 / 20), Fin (19 / 20), Fin 1]"
proof -
  have d: "drawSpline line_stroke brush10 (save ctx0)
      = Inr (stroke ((save ctx0)\<lparr>drawing := \<lparr>lineWidth = 10, lineCap = ''round'',
                                    lineJoin = ''round'', strokeStyle = ''#000000'',
                                    globalCompositeOperation = ''source-over''\<rparr>,
                                path := [tenths]\<rparr>))"
  proof -
    have p: "path (set_strokeStyle (color brush10)
        (set_lineJoin ''round'' (set_lineCap ''round'' (beginPath (save ctx0))))) = []"
      by (simp add: beginPath_def set_lineCap_def set_lineJoin_def set_strokeStyle_def)
    show ?thesis
      by (simp add: drawSpline_def Let_def line_stroke_def line_knots line_spline [OF p])
         (simp add: beginPath_def set_lineCap_def set_lineJoin_def set_strokeStyle_def save_def
            ctx0_def brush10_def)
  qed
  have t: "take 3 line_stroke @ [line_stroke ! 3] = line_stroke"
    by (simp add: line_stroke_def)
  have l: "\<not> length line_stroke < 4" by (simp add: line_stroke_def)
  have b: "tool brush10 = Brush" by (simp add: brush10_def)
  have a: "addPoint (line_stroke ! 3) brush10 (engine_after3 line_stroke)
     = Inr \<lparr>points = line_stroke,
            ctx = ctx0\<lparr>path := [tenths],
                      drawn := [\<lparr>stroked_path = [tenths],
                                 stroked_with = \<lparr>lineWidth = 10, lineCap = ''round'',
                                    lineJoin = ''round'', strokeStyle = ''#000000'',
                                    globalCompositeOperation = ''source-over''\<rparr>\<rparr>]\<rparr>\<rparr>"
    by (simp add: addPoint_def engine_after3_def Let_def t l b d)
       (simp add: stroke_def restore_def save_def ctx0_def)
  have "map (step_pressure (line_stroke ! 1) (line_stroke ! 2)) [0, 1, 9, 10]
       = [Fin (1 / 2), Fin (11 / 20), Fin (19 / 20), Fin 1]"
    by (simp add: line_stroke_def step_pressure_def sample_def jsub_def steps_def)
  with a show ?thesis by simp
qed

end
